theory Spec2Isabelle
  imports Main "HOL-Library.Char_ord" "HOL-Library.List_Lexorder" "HOL-Library.Sublist"
begin

section \<open>The GNS3 topology converter (gns3converter/converter.py)\<close>

text \<open>
  A shallow embedding of the class \<open>Converter\<close>. Python dictionaries are association
  lists read with \<open>map_of\<close>; \<open>sorted(d)\<close> is the sorted list of the keys.
  Every exception the Python can raise is a value of \<open>error\<close>, and a function that
  can raise returns \<open>error + 'a\<close>. The attributes \<open>self.port_id\<close>, \<open>self.links\<close>
  and \<open>self.configs\<close> are passed and returned explicitly.
\<close>

subsection \<open>Python values, strings and errors\<close>

datatype error = KeyError string | TypeError | AttributeError | IndexError | ValueError

datatype val = S string | I int

type_synonym 'v pydict = "(string \<times> 'v) list"

definition sorted_keys :: "'v pydict \<Rightarrow> string list" where
  "sorted_keys d = sort (remdups (map fst d))"

text \<open>\<open>d[k]\<close>: a missing key raises \<open>KeyError\<close>.\<close>

definition getitem :: "'v pydict \<Rightarrow> string \<Rightarrow> error + 'v" where
  "getitem d k = (case map_of d k of None \<Rightarrow> Inl (KeyError k) | Some v \<Rightarrow> Inr v)"

text \<open>\<open>d[k] = v\<close> on a dictionary held as an association list.\<close>

definition setitem :: "'v pydict \<Rightarrow> string \<Rightarrow> 'v \<Rightarrow> 'v pydict" where
  "setitem d k v = (k, v) # filter (\<lambda>kv. fst kv \<noteq> k) d"

definition startswith :: "string \<Rightarrow> string \<Rightarrow> bool" where
  "startswith s p = prefix p s"

text \<open>\<open>s.replace(old, new)\<close>: every non-overlapping occurrence, scanning from the left.
  An empty \<open>old\<close> does not occur in the converter and leaves the string as it is here.\<close>

function str_replace :: "string \<Rightarrow> string \<Rightarrow> string \<Rightarrow> string" where
  "str_replace old new s =
     (if old = [] \<or> s = [] then s
      else if prefix old s then new @ str_replace old new (drop (length old) s)
      else hd s # str_replace old new (tl s))"
  by pat_completeness auto
termination
  by (relation "measure (\<lambda>(old, new, s). length s)") auto

declare str_replace.simps [simp del]

text \<open>\<open>s.split(sep)\<close> for a one-character separator: empty fields are kept.\<close>

fun split_on :: "char \<Rightarrow> string \<Rightarrow> string list" where
  "split_on c [] = [[]]"
| "split_on c (x # xs) =
     (if x = c then [] # split_on c xs
      else (case split_on c xs of [] \<Rightarrow> [[x]] | w # ws \<Rightarrow> (x # w) # ws))"

definition is_digit :: "char \<Rightarrow> bool" where
  "is_digit c = (c \<in> set ''0123456789'')"

definition digit_char :: "nat \<Rightarrow> char" where
  "digit_char d = ''0123456789'' ! d"

text \<open>\<open>str(n)\<close> for integers, and for \<open>None\<close>.\<close>

function str_nat :: "nat \<Rightarrow> string" where
  "str_nat n = (if n < 10 then [digit_char n] else str_nat (n div 10) @ [digit_char (n mod 10)])"
  by pat_completeness auto
termination
  by (relation "measure id") auto

declare str_nat.simps [simp del]

definition str_int :: "int \<Rightarrow> string" where
  "str_int i = (if i < 0 then CHR ''-'' # str_nat (nat (- i)) else str_nat (nat i))"

definition str_opt :: "int option \<Rightarrow> string" where
  "str_opt v = (case v of None \<Rightarrow> ''None'' | Some i \<Rightarrow> str_int i)"

text \<open>ASCII case mapping, as \<open>str.upper\<close> and \<open>re.IGNORECASE\<close> act on ASCII letters.\<close>

definition char_upper :: "char \<Rightarrow> char" where
  "char_upper c =
     (case map_of (zip ''abcdefghijklmnopqrstuvwxyz'' ''ABCDEFGHIJKLMNOPQRSTUVWXYZ'') c of
        None \<Rightarrow> c | Some u \<Rightarrow> u)"

definition char_lower :: "char \<Rightarrow> char" where
  "char_lower c =
     (case map_of (zip ''ABCDEFGHIJKLMNOPQRSTUVWXYZ'' ''abcdefghijklmnopqrstuvwxyz'') c of
        None \<Rightarrow> c | Some l \<Rightarrow> l)"

definition upper :: "string \<Rightarrow> string" where
  "upper s = map char_upper s"

subsection \<open>The regular expressions\<close>

text \<open>
  \<open>interface_re\<close> is compiled with \<open>re.IGNORECASE\<close> only, so the line break inside the
  pattern text is part of the alternative \<open>IDS-Sensor\<close>. The pattern is anchored at the
  start and open at the end: an alternative, one or more digits, a slash, one digit.
\<close>

definition interface_prefixes :: "string list" where
  "interface_prefixes =
     [''g'', ''gi'', ''f'', ''fa'', ''a'', ''at'', ''s'', ''se'', ''e'', ''et'', ''p'', ''po'',
      ''i'', ''id'', ''IDS-Sensor'' @ [CHR 0x0A], ''an'', ''Analysis-Module'']"

definition digits_slash_digits :: "string \<Rightarrow> bool" where
  "digits_slash_digits r =
     (takeWhile is_digit r \<noteq> [] \<and>
      (case dropWhile is_digit r of
         c # d # _ \<Rightarrow> c = CHR ''/'' \<and> is_digit d
       | _ \<Rightarrow> False))"

definition interface_re_search :: "string \<Rightarrow> bool" where
  "interface_re_search s =
     list_ex (\<lambda>p. length p \<le> length s \<and>
                  map char_lower (take (length p) s) = map char_lower p \<and>
                  digits_slash_digits (drop (length p) s)) interface_prefixes"

definition ethswint_re_search :: "string \<Rightarrow> bool" where
  "ethswint_re_search s = (case s of [] \<Rightarrow> False | c # _ \<Rightarrow> is_digit c)"

subsection \<open>get_instances\<close>

text \<open>
  \<open>ip_address\<close> belongs to Python's standard library; the parameter \<open>ip_ok\<close> says
  for which strings it returns an address instead of raising \<open>ValueError\<close>.
  \<open>item.index(':')\<close> is the position of the first colon.
\<close>

fun get_instances_loop :: "(string \<Rightarrow> bool) \<Rightarrow> string list \<Rightarrow> string list \<Rightarrow> string list" where
  "get_instances_loop ip_ok [] instances = instances"
| "get_instances_loop ip_ok (item # items) instances =
     (if CHR '':'' \<in> set item then
        (let delim_pos = length (takeWhile (\<lambda>c. c \<noteq> CHR '':'') item);
             addr = take delim_pos item
         in if ip_ok addr then get_instances_loop ip_ok items (instances @ [item])
            else get_instances_loop ip_ok items instances)
      else get_instances_loop ip_ok items instances)"

definition get_instances :: "(string \<Rightarrow> bool) \<Rightarrow> 'v pydict \<Rightarrow> string list" where
  "get_instances ip_ok config = get_instances_loop ip_ok (sorted_keys config) []"

subsection \<open>device_typename\<close>

record dev_type =
  dt_from :: string
  dt_desc :: string
  dt_type :: string

definition mk_dev_type :: "string \<Rightarrow> string \<Rightarrow> string \<Rightarrow> dev_type" where
  "mk_dev_type f d t = \<lparr>dt_from = f, dt_desc = d, dt_type = t\<rparr>"

text \<open>With no matching prefix \<open>dev_type\<close> is \<open>None\<close> and \<open>dev_type['from']\<close> raises
  \<open>TypeError\<close>.\<close>

definition device_typename :: "string \<Rightarrow> error + (string \<times> dev_type)" where
  "device_typename item =
     (let dev_type =
        (if startswith item ''ROUTER'' then Some (mk_dev_type ''ROUTER'' ''Router'' ''Router'')
         else if startswith item ''QEMU'' then Some (mk_dev_type ''QEMU'' ''QEMU'' ''QEMU'')
         else if startswith item ''VBOX'' then Some (mk_dev_type ''VBOX'' ''VBOX'' ''VBOX'')
         else if startswith item ''FRSW'' then
           Some (mk_dev_type ''FRSW'' ''Frame Relay switch'' ''FrameRelaySwitch'')
         else if startswith item ''ETHSW'' then
           Some (mk_dev_type ''ETHSW'' ''Ethernet switch'' ''EthernetSwitch'')
         else if startswith item ''Hub'' then
           Some (mk_dev_type ''Hub'' ''Ethernet hub'' ''EthernetHub'')
         else if startswith item ''ATMSW'' then
           Some (mk_dev_type ''ATMSW'' ''ATM switch'' ''ATMSwitch'')
         else if startswith item ''ATMBR'' then Some (mk_dev_type ''ATMBR'' ''ATMBR'' ''ATMBR'')
         else if startswith item ''Cloud'' then Some (mk_dev_type ''Cloud'' ''Cloud'' ''Cloud'')
         else None)
      in case dev_type of
           None \<Rightarrow> Inl TypeError
         | Some dt \<Rightarrow> Inr (str_replace (dt_from dt @ '' '') [] item, dt))"

subsection \<open>The port catalogue (gns3converter/ports.py)\<close>

text \<open>
  The tables \<open>MODEL_MATRIX\<close>, \<open>PORT_TYPES\<close> and \<open>ADAPTER_MATRIX\<close> are imported
  from \<open>ports.py\<close>. The converter only reads them, so they are a parameter of every
  function that does. An entry of \<open>MODEL_MATRIX\<close> holds \<open>'ports'\<close> and, read only
  when there are ports, \<open>'type'\<close>.
\<close>

record catalog =
  MODEL_MATRIX :: "(nat \<times> string option) pydict pydict"
  PORT_TYPES :: "string pydict"
  ADAPTER_MATRIX :: "(nat \<times> string) pydict"

subsection \<open>Ports, nodes and links\<close>

text \<open>A slot is the integer \<open>0\<close> for the default cards and the character \<open>item[4]\<close>
  for a \<open>slotN\<close> property.\<close>

datatype slot = SlotInt int | SlotStr string

definition str_slot :: "slot \<Rightarrow> string" where
  "str_slot sl = (case sl of SlotInt i \<Rightarrow> str_int i | SlotStr s \<Rightarrow> s)"

record port =
  p_name :: string
  p_id :: int
  p_port_number :: "int option"
  p_slot_number :: "slot option"
  p_type :: "string option"
  p_vlan :: "int option"
  p_stub :: bool
  p_link_id :: "int option"

datatype propval = PV val | PL "string list"

record node =
  n_id :: int
  n_server_id :: int
  n_x :: val
  n_y :: val
  n_type :: string
  n_description :: string
  n_router_id :: "int option"
  n_ports :: "port list option"
  n_label_text :: string
  n_properties :: "propval pydict"

text \<open>An entry of \<open>self.links\<close>, as \<open>calc_link\<close> builds it.\<close>

record slink =
  s_source_node_id :: int
  s_source_port_id :: int
  dest_dev :: string
  dest_port :: string

text \<open>An entry of the list that \<open>generate_links\<close> returns; \<open>'id'\<close> is absent until
  the second loop assigns it.\<close>

record link =
  destination_node_id :: "int option"
  destination_port_id :: "int option"
  source_port_id :: int
  source_node_id :: int
  l_id :: "int option"

record conv_state =
  port_id :: int
  links :: "slink list"
  configs :: "(val \<times> string) list"

subsection \<open>Port computation\<close>

definition mk_port :: "string \<Rightarrow> int \<Rightarrow> int \<Rightarrow> slot \<Rightarrow> port" where
  "mk_port nm i num sl =
     \<lparr>p_name = nm, p_id = i, p_port_number = Some num, p_slot_number = Some sl,
      p_type = None, p_vlan = None, p_stub = False, p_link_id = None\<rparr>"

text \<open>The body of \<open>for i in range(num_ports)\<close>, shared by \<open>calc_mb_ports\<close> (whose
  name is \<open>PORT_TYPES[port_type] + '0/' + str(i)\<close>) and \<open>calc_slot_ports\<close>.\<close>

definition range_ports :: "string \<Rightarrow> slot \<Rightarrow> nat \<Rightarrow> int \<Rightarrow> port list" where
  "range_ports long sl num_ports pid =
     map (\<lambda>i. mk_port (long @ str_slot sl @ ''/'' @ str_int (int i)) (pid + int i) (int i) sl)
       [0..<num_ports]"

definition calc_mb_ports :: "catalog \<Rightarrow> val \<Rightarrow> val \<Rightarrow> int \<Rightarrow> error + (port list \<times> int)" where
  "calc_mb_ports cat model device_chassis pid =
     (case (model, device_chassis) of
        (S m, S ch) \<Rightarrow>
          (case getitem (MODEL_MATRIX cat) m of
             Inl e \<Rightarrow> Inl e
           | Inr row \<Rightarrow>
               (case getitem row ch of
                  Inl e \<Rightarrow> Inl e
                | Inr (num_ports, ty) \<Rightarrow>
                    if num_ports > 0 then
                      (case ty of
                         None \<Rightarrow> Inl (KeyError ''type'')
                       | Some port_type \<Rightarrow>
                           (case getitem (PORT_TYPES cat) port_type of
                              Inl e \<Rightarrow> Inl e
                            | Inr long \<Rightarrow>
                                Inr (range_ports long (SlotInt 0) num_ports pid,
                                     pid + int num_ports)))
                    else Inr ([], pid)))
      | (S m, I _) \<Rightarrow>
          (case getitem (MODEL_MATRIX cat) m of
             Inl e \<Rightarrow> Inl e
           | Inr row \<Rightarrow> Inl (KeyError ''chassis''))
      | (I _, _) \<Rightarrow> Inl (KeyError ''model''))"

definition calc_slot_ports :: "catalog \<Rightarrow> propval \<Rightarrow> slot \<Rightarrow> int \<Rightarrow> error + (port list \<times> int)" where
  "calc_slot_ports cat adapter sl pid =
     (case adapter of
        PV (S a) \<Rightarrow>
          (case getitem (ADAPTER_MATRIX cat) a of
             Inl e \<Rightarrow> Inl e
           | Inr (num_ports, port_type) \<Rightarrow>
               if num_ports > 0 then
                 (case getitem (PORT_TYPES cat) port_type of
                    Inl e \<Rightarrow> Inl e
                  | Inr long \<Rightarrow>
                      Inr (range_ports long sl num_ports pid, pid + int num_ports))
               else Inr ([], pid))
      | _ \<Rightarrow> Inl (KeyError ''adapter''))"

text \<open>\<open>connection[2]\<close> and \<open>connection[3]\<close> raise \<open>IndexError\<close> on fewer than four
  fields.\<close>

definition calc_cloud_connection :: "string \<Rightarrow> int \<Rightarrow> error + (port \<times> string \<times> int)" where
  "calc_cloud_connection connection pid =
     (let c = split_on CHR '':'' connection in
      if length c < 4 then Inl IndexError
      else
        (let nio = c ! 2 @ '':'' @ c ! 3;
             port = \<lparr>p_name = nio, p_id = pid, p_port_number = None, p_slot_number = None,
                     p_type = None, p_vlan = None, p_stub = True, p_link_id = None\<rparr>
         in Inr (port, nio, pid + 1)))"

text \<open>\<open>int(s)\<close> on a string: an optional sign and decimal digits. The surrounding
  white space and the digit separators that Python also accepts are not modelled.\<close>

definition digit_val :: "char \<Rightarrow> nat" where
  "digit_val c = of_char c - 48"

definition py_int :: "string \<Rightarrow> error + int" where
  "py_int s =
     (let neg = (case s of c # _ \<Rightarrow> c = CHR ''-'' | [] \<Rightarrow> False);
          ds = (case s of c # r \<Rightarrow> if c = CHR ''-'' \<or> c = CHR ''+'' then r else s | [] \<Rightarrow> s)
      in if ds \<noteq> [] \<and> list_all is_digit ds then
           (let n = int (foldl (\<lambda>a c. 10 * a + digit_val c) 0 ds)
            in Inr (if neg then - n else n))
         else Inl ValueError)"

definition calc_ethsw_port ::
  "string \<Rightarrow> val \<Rightarrow> int \<Rightarrow> error + (port \<times> (string \<times> string) \<times> int)" where
  "calc_ethsw_port port_num port_def_v pid =
     (case port_def_v of
        I _ \<Rightarrow> Inl AttributeError
      | S port_def_s \<Rightarrow>
          (let port_def = split_on CHR '' '' port_def_s in
           if length port_def < 3 then Inl IndexError
           else
             (let destination =
                    (if length port_def = 4 then (port_def ! 2, port_def ! 3)
                     else (''NIO'', port_def ! 2))
              in case py_int port_num of
                   Inl e \<Rightarrow> Inl e
                 | Inr pn \<Rightarrow>
                     (case py_int (port_def ! 1) of
                        Inl e \<Rightarrow> Inl e
                      | Inr vl \<Rightarrow>
                          Inr (\<lparr>p_name = port_num, p_id = pid, p_port_number = Some pn,
                                p_slot_number = None, p_type = Some (port_def ! 0),
                                p_vlan = Some vl, p_stub = False, p_link_id = None\<rparr>,
                               destination, pid + 1)))))"

definition calc_link :: "int \<Rightarrow> int \<Rightarrow> (string \<times> string) \<Rightarrow> slink" where
  "calc_link src_id src_port destination =
     \<lparr>s_source_node_id = src_id, s_source_port_id = src_port,
      dest_dev = fst destination, dest_port = snd destination\<rparr>"

subsection \<open>Name lookups\<close>

text \<open>The loop \<open>for port in ports: if port_name == port['name']: ...; break\<close>.\<close>

fun port_id_by_name :: "string \<Rightarrow> port list \<Rightarrow> int option" where
  "port_id_by_name nm [] = None"
| "port_id_by_name nm (p # ps) = (if nm = p_name p then Some (p_id p) else port_id_by_name nm ps)"

text \<open>\<open>node['ports']\<close>: the key is absent on a node that is neither a router, nor an
  Ethernet switch, nor a cloud.\<close>

definition node_ports :: "node \<Rightarrow> error + port list" where
  "node_ports nd = (case n_ports nd of None \<Rightarrow> Inl (KeyError ''ports'') | Some ps \<Rightarrow> Inr ps)"

fun convert_named :: "string \<Rightarrow> string \<Rightarrow> node list \<Rightarrow> error + (int option \<times> int option)" where
  "convert_named destination_node destination_port [] = Inr (None, None)"
| "convert_named destination_node destination_port (nd # nodes) =
     (case getitem (n_properties nd) ''name'' of
        Inl e \<Rightarrow> Inl e
      | Inr nm \<Rightarrow>
          if PV (S destination_node) = nm then
            (case node_ports nd of
               Inl e \<Rightarrow> Inl e
             | Inr ps \<Rightarrow> Inr (Some (n_id nd), port_id_by_name destination_port ps))
          else convert_named destination_node destination_port nodes)"

text \<open>The \<open>else\<close> branch: the outer \<open>break\<close> sits in the body of
  \<open>if node['type'] == 'Cloud'\<close>, after the loop over the ports.\<close>

fun convert_nio :: "string \<Rightarrow> node list \<Rightarrow> error + (int option \<times> int option)" where
  "convert_nio destination_port [] = Inr (None, None)"
| "convert_nio destination_port (nd # nodes) =
     (if n_type nd = ''Cloud'' then
        (case node_ports nd of
           Inl e \<Rightarrow> Inl e
         | Inr ps \<Rightarrow>
             (case port_id_by_name destination_port ps of
                None \<Rightarrow> Inr (None, None)
              | Some pid \<Rightarrow> Inr (Some (n_id nd), Some pid)))
      else convert_nio destination_port nodes)"

definition convert_destination_to_id ::
  "string \<Rightarrow> string \<Rightarrow> node list \<Rightarrow> error + (int option \<times> int option)" where
  "convert_destination_to_id destination_node destination_port nodes =
     (if destination_node \<noteq> ''NIO'' then convert_named destination_node destination_port nodes
      else convert_nio destination_port nodes)"

subsection \<open>calc_router_links\<close>

text \<open>\<open>int_type\<close> is the first character of the key; \<open>replace\<close> rewrites every
  occurrence of that character.\<close>

definition expand_name :: "catalog \<Rightarrow> string \<Rightarrow> error + string" where
  "expand_name cat nm =
     (case nm of
        [] \<Rightarrow> Inl IndexError
      | c # _ \<Rightarrow>
          (case getitem (PORT_TYPES cat) (upper [c]) of
             Inl e \<Rightarrow> Inl e
           | Inr long \<Rightarrow> Inr (str_replace [c] long nm)))"

definition calc_router_links ::
  "catalog \<Rightarrow> (string \<times> val) \<Rightarrow> int \<Rightarrow> port list \<Rightarrow> error + slink" where
  "calc_router_links cat connection node_id ports =
     (case expand_name cat (fst connection) of
        Inl e \<Rightarrow> Inl e
      | Inr int_name \<Rightarrow>
          (let src_port = (case port_id_by_name int_name ports of None \<Rightarrow> 0 | Some i \<Rightarrow> i)
           in case snd connection of
                I _ \<Rightarrow> Inl AttributeError
              | S to \<Rightarrow>
                  (let dest_temp = split_on CHR '' '' to;
                       conn_to = (if length dest_temp = 2 then (dest_temp ! 0, dest_temp ! 1)
                                  else (''NIO'', dest_temp ! 0))
                   in Inr (calc_link node_id src_port conn_to))))"

subsection \<open>add_node_connections\<close>

text \<open>The loop \<open>for port in node['ports']: if port['id'] == i: port['link_id'] = ...; break\<close>.
  \<open>i\<close> is \<open>None\<close> for an unresolved destination, which equals no port id.\<close>

fun set_link_id :: "int option \<Rightarrow> int option \<Rightarrow> port list \<Rightarrow> port list" where
  "set_link_id i lid [] = []"
| "set_link_id i lid (p # ps) =
     (if Some (p_id p) = i then p\<lparr>p_link_id := lid\<rparr> # ps else p # set_link_id i lid ps)"

definition connect_node :: "link \<Rightarrow> node \<Rightarrow> error + node" where
  "connect_node lnk nd =
     (if n_id nd = source_node_id lnk then
        (case node_ports nd of
           Inl e \<Rightarrow> Inl e
         | Inr ps \<Rightarrow>
             Inr (nd\<lparr>n_ports := Some (set_link_id (Some (source_port_id lnk)) (l_id lnk) ps)\<rparr>))
      else if Some (n_id nd) = destination_node_id lnk then
        (case node_ports nd of
           Inl e \<Rightarrow> Inl e
         | Inr ps \<Rightarrow>
             Inr (nd\<lparr>n_ports := Some (set_link_id (destination_port_id lnk) (l_id lnk) ps)\<rparr>))
      else Inr nd)"

fun add_node_connections :: "link \<Rightarrow> node list \<Rightarrow> error + node list" where
  "add_node_connections lnk [] = Inr []"
| "add_node_connections lnk (nd # nodes) =
     (case connect_node lnk nd of
        Inl e \<Rightarrow> Inl e
      | Inr nd' \<Rightarrow>
          (case add_node_connections lnk nodes of
             Inl e \<Rightarrow> Inl e
           | Inr nodes' \<Rightarrow> Inr (nd' # nodes')))"

subsection \<open>generate_links\<close>

definition resolve_link :: "catalog \<Rightarrow> node list \<Rightarrow> slink \<Rightarrow> error + link" where
  "resolve_link cat nodes lnk =
     (case (if interface_re_search (dest_port lnk) then expand_name cat (dest_port lnk)
            else Inr (dest_port lnk)) of
        Inl e \<Rightarrow> Inl e
      | Inr dport \<Rightarrow>
          (case convert_destination_to_id (dest_dev lnk) dport nodes of
             Inl e \<Rightarrow> Inl e
           | Inr (dest_node_id, dest_port_id) \<Rightarrow>
               Inr \<lparr>destination_node_id = dest_node_id,
                    destination_port_id = dest_port_id,
                    source_port_id = s_source_port_id lnk,
                    source_node_id = s_source_node_id lnk,
                    l_id = None\<rparr>))"

fun resolve_links :: "catalog \<Rightarrow> node list \<Rightarrow> slink list \<Rightarrow> error + link list" where
  "resolve_links cat nodes [] = Inr []"
| "resolve_links cat nodes (lnk # rest) =
     (case resolve_link cat nodes lnk of
        Inl e \<Rightarrow> Inl e
      | Inr l \<Rightarrow>
          (case resolve_links cat nodes rest of
             Inl e \<Rightarrow> Inl e
           | Inr ls \<Rightarrow> Inr (l # ls)))"

definition t_link :: "link \<Rightarrow> string" where
  "t_link lnk = str_int (source_node_id lnk) @ '':'' @ str_int (source_port_id lnk)"

definition d_link :: "link \<Rightarrow> string" where
  "d_link lnk = str_opt (destination_node_id lnk) @ '':'' @ str_opt (destination_port_id lnk)"

fun first_index :: "('a \<Rightarrow> bool) \<Rightarrow> 'a list \<Rightarrow> nat option" where
  "first_index P [] = None"
| "first_index P (x # xs) =
     (if P x then Some 0 else map_option Suc (first_index P xs))"

definition delete_at :: "nat \<Rightarrow> 'a list \<Rightarrow> 'a list" where
  "delete_at k xs = take k xs @ drop (Suc k) xs"

text \<open>
  One pass of the body of \<open>for link in links\<close>, with the list iterator at index \<open>i\<close>.
  The inner loop stops at the first \<open>link2\<close> whose destination text is the source text
  of \<open>link\<close>; \<open>links.remove(link2)\<close> deletes the first element equal to \<open>link2\<close>, at
  index \<open>k\<close>. The dictionary \<open>link\<close> then receives its id wherever it now is in the
  list: one place down when an element before it was deleted, nowhere when it was deleted
  itself. The result is the list and \<open>link\<close> with its id.
\<close>

definition dedup_step :: "nat \<Rightarrow> int \<Rightarrow> link list \<Rightarrow> link list \<times> link" where
  "dedup_step i link_id lnks =
     (let lnk = lnks ! i;
          lnk' = lnk\<lparr>l_id := Some link_id\<rparr>
      in case first_index (\<lambda>link2. t_link lnk = d_link link2) lnks of
           None \<Rightarrow> (lnks[i := lnk'], lnk')
         | Some j \<Rightarrow>
             (case first_index (\<lambda>x. x = lnks ! j) lnks of
                None \<Rightarrow> (lnks[i := lnk'], lnk')
              | Some k \<Rightarrow>
                  (if k < i then (delete_at k lnks)[i - 1 := lnk']
                   else if k = i then delete_at k lnks
                   else (delete_at k lnks)[i := lnk'],
                   lnk')))"

text \<open>The iterator of a Python list yields \<open>links[i]\<close> while \<open>i < len(links)\<close>, whatever
  happened to the list in between.\<close>

function dedup_loop :: "nat \<Rightarrow> int \<Rightarrow> link list \<Rightarrow> node list \<Rightarrow> error + (link list \<times> node list)" where
  "dedup_loop i link_id lnks nodes =
     (if i < length lnks then
        (case add_node_connections (snd (dedup_step i link_id lnks)) nodes of
           Inl e \<Rightarrow> Inl e
         | Inr nodes' \<Rightarrow> dedup_loop (Suc i) (link_id + 1) (fst (dedup_step i link_id lnks)) nodes')
      else Inr (lnks, nodes))"
  by pat_completeness auto
termination
proof (relation "measure (\<lambda>(i, link_id, lnks, nodes). length lnks - i)")
  show "wf (measure (\<lambda>(i, link_id, lnks, nodes). length lnks - i))"
    by simp
next
  fix i :: nat and link_id :: int and lnks :: "link list" and nodes x2 :: "node list"
  assume "i < length lnks"
  moreover have "length (fst (dedup_step i link_id lnks)) \<le> length lnks"
    by (auto simp: dedup_step_def delete_at_def Let_def split: option.splits)
  ultimately show "((Suc i, link_id + 1, fst (dedup_step i link_id lnks), x2), i, link_id, lnks, nodes)
      \<in> measure (\<lambda>(i, link_id, lnks, nodes). length lnks - i)"
    by simp
qed

declare dedup_loop.simps [simp del]

text \<open>The Python returns \<open>links\<close>; the nodes are changed in place, so the model returns
  them too.\<close>

definition generate_links ::
  "catalog \<Rightarrow> slink list \<Rightarrow> node list \<Rightarrow> error + (link list \<times> node list)" where
  "generate_links cat self_links nodes =
     (case resolve_links cat nodes self_links of
        Inl e \<Rightarrow> Inl e
      | Inr lnks \<Rightarrow> dedup_loop 0 1 lnks nodes)"

subsection \<open>generate_nodes\<close>

text \<open>
  A device is the dictionary \<open>devices[device]\<close>; the hypervisor configurations are keyed
  by the integer \<open>hv_id\<close>. \<open>process_topology\<close> stores an integer under \<open>'node_id'\<close>
  and a string under \<open>'type'\<close>; a device that holds anything else there is outside the
  data model and is reported as \<open>TypeError\<close>.
\<close>

type_synonym device = "val pydict"
type_synonym hypervisors = "(int \<times> val pydict) list"

text \<open>The local variables of one pass of \<open>for device in sorted(devices)\<close> that the
  loop over the keys of the device changes, and the attributes of \<open>self\<close>.\<close>

record loop_state =
  ls_props :: "propval pydict"
  ls_ports :: "port list option"
  ls_router_id :: "int option"
  ls_npe :: "val option"
  ls_chassis :: val
  ls_connections :: "val option"
  ls_interfaces :: "(string \<times> val) list"
  ls_conv :: conv_state

definition basename :: "string \<Rightarrow> string" where
  "basename path = rev (takeWhile (\<lambda>c. c \<noteq> CHR ''/'') (rev path))"

definition copy_if_present :: "val pydict \<Rightarrow> string \<Rightarrow> propval pydict \<Rightarrow> propval pydict" where
  "copy_if_present hv k props =
     (case map_of hv k of None \<Rightarrow> props | Some v \<Rightarrow> setitem props k (PV v))"

definition hv_item :: "hypervisors \<Rightarrow> val \<Rightarrow> loop_state \<Rightarrow> error + loop_state" where
  "hv_item hyp v ls =
     (case v of
        S _ \<Rightarrow> Inl (KeyError ''hv_id'')
      | I hv_id \<Rightarrow>
          (case map_of hyp hv_id of
             None \<Rightarrow> Inl (KeyError ''hv_id'')
           | Some hv \<Rightarrow>
               (case getitem hv ''image'' of
                  Inl e \<Rightarrow> Inl e
                | Inr (I _) \<Rightarrow> Inl TypeError
                | Inr (S img) \<Rightarrow>
                    Inr (ls\<lparr>ls_props :=
                               copy_if_present hv ''ram''
                                 (copy_if_present hv ''idlepc''
                                    (setitem (ls_props ls) ''image'' (PV (S (basename img))))),
                             ls_npe := (case map_of hv ''npe'' of
                                          None \<Rightarrow> ls_npe ls | Some n \<Rightarrow> Some n),
                             ls_chassis := (case map_of hv ''chassis'' of
                                              None \<Rightarrow> ls_chassis ls | Some c \<Rightarrow> c)\<rparr>))))"

definition ethsw_item :: "int \<Rightarrow> string \<Rightarrow> val \<Rightarrow> loop_state \<Rightarrow> error + loop_state" where
  "ethsw_item node_id item v ls =
     (case calc_ethsw_port item v (port_id (ls_conv ls)) of
        Inl e \<Rightarrow> Inl e
      | Inr (port_def, destination, pid') \<Rightarrow>
          (case ls_ports ls of
             None \<Rightarrow> Inl (KeyError ''ports'')
           | Some ps \<Rightarrow>
               Inr (ls\<lparr>ls_ports := Some (ps @ [port_def]),
                        ls_conv := (ls_conv ls)
                          \<lparr>port_id := pid',
                           links := links (ls_conv ls) @
                                    [calc_link node_id (p_id port_def) destination]\<rparr>\<rparr>)))"

definition cnfg_item :: "int \<Rightarrow> val \<Rightarrow> loop_state \<Rightarrow> loop_state" where
  "cnfg_item node_id v ls =
     (let new_config = ''i'' @ str_int node_id @ ''_startup-config.cfg''
      in ls\<lparr>ls_props := setitem (ls_props ls) ''startup_config'' (PV (S new_config)),
             ls_conv := (ls_conv ls)\<lparr>configs := configs (ls_conv ls) @ [(v, new_config)]\<rparr>\<rparr>)"

text \<open>The body of \<open>for item in sorted(devices[device])\<close>; \<open>v\<close> is
  \<open>devices[device][item]\<close>.\<close>

definition item_step ::
  "hypervisors \<Rightarrow> val \<Rightarrow> val \<Rightarrow> int \<Rightarrow> string \<Rightarrow> val \<Rightarrow> loop_state \<Rightarrow> error + loop_state" where
  "item_step hyp dtype model node_id item v ls =
     (if item = ''hv_id'' \<and> dtype = S ''Router'' then hv_item hyp v ls
      else if item = ''type'' \<and> v = S ''Router'' then Inr (ls\<lparr>ls_router_id := Some node_id\<rparr>)
      else if item = ''aux'' then Inr (ls\<lparr>ls_props := setitem (ls_props ls) ''aux'' (PV v)\<rparr>)
      else if item = ''console'' then
        Inr (ls\<lparr>ls_props := setitem (ls_props ls) ''console'' (PV v)\<rparr>)
      else if startswith item ''slot'' then
        (if model = S ''c7200'' then
           (if item \<noteq> ''slot0'' then Inr (ls\<lparr>ls_props := setitem (ls_props ls) item (PV v)\<rparr>)
            else Inr ls)
         else Inr (ls\<lparr>ls_props := setitem (ls_props ls) item (PV v)\<rparr>))
      else if item = ''connections'' then Inr (ls\<lparr>ls_connections := Some v\<rparr>)
      else if interface_re_search item then
        Inr (ls\<lparr>ls_interfaces := ls_interfaces ls @ [(item, v)]\<rparr>)
      else if ethswint_re_search item then ethsw_item node_id item v ls
      else if item = ''cnfg'' then Inr (cnfg_item node_id v ls)
      else Inr ls)"

fun items_loop ::
  "hypervisors \<Rightarrow> device \<Rightarrow> val \<Rightarrow> val \<Rightarrow> int \<Rightarrow> string list \<Rightarrow> loop_state \<Rightarrow> error + loop_state" where
  "items_loop hyp dev dtype model node_id [] ls = Inr ls"
| "items_loop hyp dev dtype model node_id (item # items) ls =
     (case getitem dev item of
        Inl e \<Rightarrow> Inl e
      | Inr v \<Rightarrow>
          (case item_step hyp dtype model node_id item v ls of
             Inl e \<Rightarrow> Inl e
           | Inr ls' \<Rightarrow> items_loop hyp dev dtype model node_id items ls'))"

text \<open>\<open>for item in sorted(node_temp_props): if item.startswith('slot'): ...\<close>;
  \<open>item[4]\<close> raises \<open>IndexError\<close> on the key \<open>'slot'\<close> itself.\<close>

fun slot_loop ::
  "catalog \<Rightarrow> propval pydict \<Rightarrow> string list \<Rightarrow> port list \<Rightarrow> int \<Rightarrow> error + (port list \<times> int)" where
  "slot_loop cat props [] ports pid = Inr (ports, pid)"
| "slot_loop cat props (item # items) ports pid =
     (if startswith item ''slot'' then
        (if length item \<le> 4 then Inl IndexError
         else
           (case getitem props item of
              Inl e \<Rightarrow> Inl e
            | Inr adapter \<Rightarrow>
                (case calc_slot_ports cat adapter (SlotStr [item ! 4]) pid of
                   Inl e \<Rightarrow> Inl e
                 | Inr (ps, pid') \<Rightarrow> slot_loop cat props items (ports @ ps) pid')))
      else slot_loop cat props items ports pid)"

text \<open>The block under the comment \<open>Add default ports to 7200 and 3660\<close>: the port list,
  the property bag and the port counter after it.\<close>

definition default_ports ::
  "catalog \<Rightarrow> val \<Rightarrow> val option \<Rightarrow> val \<Rightarrow> propval pydict \<Rightarrow> port list \<Rightarrow> int \<Rightarrow>
     error + (port list \<times> propval pydict \<times> int)" where
  "default_ports cat model npe chassis props ports pid =
     (if model = S ''c7200'' \<and> npe = Some (S ''npe-g2'') then
        (case calc_slot_ports cat (PV (S ''C7200-IO-GE-E'')) (SlotInt 0) pid of
           Inl e \<Rightarrow> Inl e
         | Inr (ps, pid') \<Rightarrow> Inr (ports @ ps, props, pid'))
      else if model = S ''c7200'' then
        (case calc_slot_ports cat (PV (S ''C7200-IO-2FE'')) (SlotInt 0) pid of
           Inl e \<Rightarrow> Inl e
         | Inr (ps, pid') \<Rightarrow> Inr (ports @ ps, props, pid'))
      else if model = S ''c3600'' then
        (let props' = setitem props ''chassis'' (PV chassis)
         in if chassis = S ''3660'' then
              Inr (ports, setitem props' ''slot0'' (PV (S ''Leopard-2FE'')), pid)
            else Inr (ports, props', pid))
      else Inr (ports, props, pid))"

text \<open>\<open>for connection in sorted(interfaces)\<close>: the elements are dictionaries, which
  Python 3 cannot order, so \<open>sorted\<close> raises \<open>TypeError\<close> as soon as it has two of them
  to compare.\<close>

definition router_links ::
  "catalog \<Rightarrow> (string \<times> val) list \<Rightarrow> int \<Rightarrow> port list \<Rightarrow> error + slink list" where
  "router_links cat interfaces node_id ports =
     (case interfaces of
        [] \<Rightarrow> Inr []
      | [connection] \<Rightarrow>
          (case calc_router_links cat connection node_id ports of
             Inl e \<Rightarrow> Inl e
           | Inr l \<Rightarrow> Inr [l])
      | _ \<Rightarrow> Inl TypeError)"

fun cloud_loop :: "string list \<Rightarrow> port list \<Rightarrow> string list \<Rightarrow> int \<Rightarrow>
    error + (port list \<times> string list \<times> int)" where
  "cloud_loop [] ports nios pid = Inr (ports, nios, pid)"
| "cloud_loop (connection # connections) ports nios pid =
     (case calc_cloud_connection connection pid of
        Inl e \<Rightarrow> Inl e
      | Inr (port, nio, pid') \<Rightarrow> cloud_loop connections (ports @ [port]) (nios @ [nio]) pid')"

definition mk_node ::
  "int \<Rightarrow> val \<Rightarrow> val \<Rightarrow> string \<Rightarrow> string \<Rightarrow> string \<Rightarrow> loop_state \<Rightarrow> port list option \<Rightarrow>
     propval pydict \<Rightarrow> node" where
  "mk_node node_id x y device ty descr ls ports props =
     \<lparr>n_id = node_id, n_server_id = 1, n_x = x, n_y = y, n_type = ty, n_description = descr,
      n_router_id = ls_router_id ls, n_ports = ports, n_label_text = device,
      n_properties = props\<rparr>"

text \<open>The branch \<open>if device_info['type'] == 'Router'\<close>.\<close>

definition router_node ::
  "catalog \<Rightarrow> int \<Rightarrow> val \<Rightarrow> val \<Rightarrow> string \<Rightarrow> val \<Rightarrow> loop_state \<Rightarrow> error + (node \<times> conv_state)" where
  "router_node cat node_id x y device model ls =
     (case model of
        I _ \<Rightarrow> Inl TypeError
      | S m \<Rightarrow>
          (case calc_mb_ports cat model (ls_chassis ls) (port_id (ls_conv ls)) of
             Inl e \<Rightarrow> Inl e
           | Inr (mb, pid1) \<Rightarrow>
               (case slot_loop cat (ls_props ls) (sorted_keys (ls_props ls)) mb pid1 of
                  Inl e \<Rightarrow> Inl e
                | Inr (ports2, pid2) \<Rightarrow>
                    (case default_ports cat model (ls_npe ls) (ls_chassis ls) (ls_props ls)
                            ports2 pid2 of
                       Inl e \<Rightarrow> Inl e
                     | Inr (ports3, props3, pid3) \<Rightarrow>
                         (case router_links cat (ls_interfaces ls) node_id ports3 of
                            Inl e \<Rightarrow> Inl e
                          | Inr ls_new \<Rightarrow>
                              Inr (mk_node node_id x y device (upper m) (''Router '' @ m) ls
                                     (Some ports3) props3,
                                   (ls_conv ls)\<lparr>port_id := pid3,
                                                links := links (ls_conv ls) @ ls_new\<rparr>))))))"

text \<open>The branch \<open>elif device_info['type'] == 'Cloud'\<close>; \<open>connections\<close> is \<open>None\<close>
  when the device has no such key, and \<open>None.split\<close> raises \<open>AttributeError\<close>.\<close>

definition cloud_node ::
  "int \<Rightarrow> val \<Rightarrow> val \<Rightarrow> string \<Rightarrow> loop_state \<Rightarrow> error + (node \<times> conv_state)" where
  "cloud_node node_id x y device ls =
     (case ls_connections ls of
        Some (S c) \<Rightarrow>
          (case cloud_loop (sort (split_on CHR '' '' c)) [] [] (port_id (ls_conv ls)) of
             Inl e \<Rightarrow> Inl e
           | Inr (ports, nios, pid') \<Rightarrow>
               Inr (mk_node node_id x y device ''Cloud'' ''Cloud'' ls (Some ports)
                      (setitem (ls_props ls) ''nios'' (PL nios)),
                    (ls_conv ls)\<lparr>port_id := pid'\<rparr>))
      | _ \<Rightarrow> Inl AttributeError)"

text \<open>One pass of \<open>for device in sorted(devices)\<close>.\<close>

definition generate_node ::
  "catalog \<Rightarrow> hypervisors \<Rightarrow> string \<Rightarrow> device \<Rightarrow> conv_state \<Rightarrow> error + (node \<times> conv_state)" where
  "generate_node cat hyp device dev st =
     (case getitem dev ''node_id'' of
        Inl e \<Rightarrow> Inl e
      | Inr (S _) \<Rightarrow> Inl TypeError
      | Inr (I node_id) \<Rightarrow>
          (case getitem dev ''x'' of
             Inl e \<Rightarrow> Inl e
           | Inr x \<Rightarrow>
               (case getitem dev ''y'' of
                  Inl e \<Rightarrow> Inl e
                | Inr y \<Rightarrow>
                    (case getitem dev ''type'' of
                       Inl e \<Rightarrow> Inl e
                     | Inr (I _) \<Rightarrow> Inl TypeError
                     | Inr (S ty) \<Rightarrow>
                         (let model = (case map_of dev ''model'' of None \<Rightarrow> S [] | Some m \<Rightarrow> m);
                              ls0 = \<lparr>ls_props = [(''name'', PV (S device))],
                                     ls_ports = (if ty = ''EthernetSwitch'' then Some [] else None),
                                     ls_router_id = None, ls_npe = None, ls_chassis = S [],
                                     ls_connections = None, ls_interfaces = [], ls_conv = st\<rparr>
                          in case items_loop hyp dev (S ty) model node_id (sorted_keys dev) ls0 of
                               Inl e \<Rightarrow> Inl e
                             | Inr ls \<Rightarrow>
                                 if ty = ''Router'' then router_node cat node_id x y device model ls
                                 else if ty = ''Cloud'' then cloud_node node_id x y device ls
                                 else Inr (mk_node node_id x y device ty ty ls (ls_ports ls)
                                             (ls_props ls), ls_conv ls))))))"

fun nodes_loop ::
  "catalog \<Rightarrow> hypervisors \<Rightarrow> device pydict \<Rightarrow> string list \<Rightarrow> node list \<Rightarrow> conv_state \<Rightarrow>
     error + (node list \<times> conv_state)" where
  "nodes_loop cat hyp devices [] nodes st = Inr (nodes, st)"
| "nodes_loop cat hyp devices (device # rest) nodes st =
     (case getitem devices device of
        Inl e \<Rightarrow> Inl e
      | Inr dev \<Rightarrow>
          (case generate_node cat hyp device dev st of
             Inl e \<Rightarrow> Inl e
           | Inr (nd, st') \<Rightarrow> nodes_loop cat hyp devices rest (nodes @ [nd]) st'))"

definition generate_nodes ::
  "catalog \<Rightarrow> hypervisors \<Rightarrow> device pydict \<Rightarrow> conv_state \<Rightarrow> error + (node list \<times> conv_state)" where
  "generate_nodes cat hyp devices st = nodes_loop cat hyp devices (sorted_keys devices) [] st"

text \<open>A fresh converter: \<open>port_id = 1\<close>, no links, no configs.\<close>

definition init_state :: conv_state where
  "init_state = \<lparr>port_id = 1, links = [], configs = []\<rparr>"

subsection \<open>Sample inputs\<close>

text \<open>
  Modelled from the spec: \<open>ports.py\<close> is not among the sources. This sample catalogue
  holds the adapters and the interface families that the specification names (the default
  cards of the 7200, the card of the 3660, the families FE and GE); it serves the examples
  only, and every general statement is about an arbitrary catalogue.
\<close>

definition sample_catalog :: catalog where
  "sample_catalog =
     \<lparr>MODEL_MATRIX =
        [(''c7200'', [([], (0, None))]),
         (''c3600'', [(''3620'', (0, None)), (''3640'', (0, None)), (''3660'', (2, Some ''F''))])],
      PORT_TYPES = [(''G'', ''GigabitEthernet''), (''F'', ''FastEthernet'')],
      ADAPTER_MATRIX =
        [(''C7200-IO-2FE'', (2, ''F'')), (''C7200-IO-GE-E'', (1, ''G'')),
         (''Leopard-2FE'', (2, ''F''))]\<rparr>"

text \<open>Two clouds and an Ethernet switch with one port towards each of them.\<close>

definition two_clouds :: "device pydict" where
  "two_clouds =
     [(''C1'', [(''node_id'', I 1), (''type'', S ''Cloud''), (''x'', I 0), (''y'', I 0),
                (''connections'', S ''SW1:1:nio_gen_eth:eth0'')]),
      (''C2'', [(''node_id'', I 2), (''type'', S ''Cloud''), (''x'', I 0), (''y'', I 0),
                (''connections'', S ''SW1:2:nio_gen_eth:eth1'')]),
      (''SW1'', [(''node_id'', I 3), (''type'', S ''EthernetSwitch''), (''x'', I 0), (''y'', I 0),
                 (''1'', S ''access 1 nio_gen_eth:eth0''),
                 (''2'', S ''access 1 nio_gen_eth:eth1'')])]"

text \<open>A link record, written source first.\<close>

definition mk_link :: "int \<Rightarrow> int \<Rightarrow> int option \<Rightarrow> int option \<Rightarrow> int option \<Rightarrow> link" where
  "mk_link sn sp dn dp i =
     \<lparr>destination_node_id = dn, destination_port_id = dp, source_port_id = sp,
      source_node_id = sn, l_id = i\<rparr>"

text \<open>One hypervisor configuration of model c7200, and scenario 2 of the specification:
  two routers that each declare the cable between their ports \<open>f0/0\<close>.\<close>

definition sample_hypervisors :: hypervisors where
  "sample_hypervisors = [(0, [(''model'', S ''c7200''), (''image'', S ''/images/c7200.image'')])]"

definition two_routers :: "device pydict" where
  "two_routers =
     [(''R1'', [(''hv_id'', I 0), (''node_id'', I 1), (''type'', S ''Router''),
                (''model'', S ''c7200''), (''x'', I 0), (''y'', I 0), (''f0/0'', S ''R2 f0/0'')]),
      (''R2'', [(''hv_id'', I 0), (''node_id'', I 2), (''type'', S ''Router''),
                (''model'', S ''c7200''), (''x'', I 0), (''y'', I 0), (''f0/0'', S ''R1 f0/0'')])]"

text \<open>The nodes and the symbolic links that \<open>generate_nodes\<close> computes for
  \<open>two_routers\<close> (lemma \<open>two_routers_generate\<close>).\<close>

definition two_routers_nodes :: "node list" where
  "two_routers_nodes =
     [\<lparr>n_id = 1, n_server_id = 1, n_x = I 0, n_y = I 0, n_type = ''C7200'',
       n_description = ''Router c7200'', n_router_id = Some 1,
       n_ports = Some [mk_port ''FastEthernet0/0'' 1 0 (SlotInt 0),
                       mk_port ''FastEthernet0/1'' 2 1 (SlotInt 0)],
       n_label_text = ''R1'',
       n_properties = [(''image'', PV (S ''c7200.image'')), (''name'', PV (S ''R1''))]\<rparr>,
      \<lparr>n_id = 2, n_server_id = 1, n_x = I 0, n_y = I 0, n_type = ''C7200'',
       n_description = ''Router c7200'', n_router_id = Some 2,
       n_ports = Some [mk_port ''FastEthernet0/0'' 3 0 (SlotInt 0),
                       mk_port ''FastEthernet0/1'' 4 1 (SlotInt 0)],
       n_label_text = ''R2'',
       n_properties = [(''image'', PV (S ''c7200.image'')), (''name'', PV (S ''R2''))]\<rparr>]"

definition two_routers_links :: "slink list" where
  "two_routers_links =
     [calc_link 1 1 (''R2'', ''f0/0''), calc_link 2 3 (''R1'', ''f0/0'')]"

text \<open>Three routers: R2 and R3 declare the cable between their ports \<open>f0/0\<close> from both
  sides, and R1 declares a cable to the same port of R2.\<close>

definition three_routers :: "device pydict" where
  "three_routers =
     [(''R1'', [(''hv_id'', I 0), (''node_id'', I 1), (''type'', S ''Router''),
                (''model'', S ''c7200''), (''x'', I 0), (''y'', I 0), (''f0/0'', S ''R2 f0/0'')]),
      (''R2'', [(''hv_id'', I 0), (''node_id'', I 2), (''type'', S ''Router''),
                (''model'', S ''c7200''), (''x'', I 0), (''y'', I 0), (''f0/0'', S ''R3 f0/0'')]),
      (''R3'', [(''hv_id'', I 0), (''node_id'', I 3), (''type'', S ''Router''),
                (''model'', S ''c7200''), (''x'', I 0), (''y'', I 0), (''f0/0'', S ''R2 f0/0'')])]"

text \<open>The whole run: the nodes, then the links over them.\<close>

definition convert ::
  "catalog \<Rightarrow> hypervisors \<Rightarrow> device pydict \<Rightarrow> error + (link list \<times> node list)" where
  "convert cat hyp devices =
     (case generate_nodes cat hyp devices init_state of
        Inl e \<Rightarrow> Inl e
      | Inr (nodes, st) \<Rightarrow> generate_links cat (links st) nodes)"

subsection \<open>Vocabulary for the link list\<close>

text \<open>
  The two ends of a link, the relation \<open>points_to b a\<close> (the destination of \<open>b\<close> is the
  source of \<open>a\<close>, which is the test \<open>t_link == d_link\<close> of the second loop of
  \<open>generate_links\<close>), and what makes a list of resolved links consistent: every port
  is the source of at most one link, a link that points to the source of another one is
  pointed back to by it, and no link joins a port to itself.
\<close>

definition source_end :: "link \<Rightarrow> int \<times> int" where
  "source_end l = (source_node_id l, source_port_id l)"

definition destination_end :: "link \<Rightarrow> int option \<times> int option" where
  "destination_end l = (destination_node_id l, destination_port_id l)"

definition points_to :: "link \<Rightarrow> link \<Rightarrow> bool" where
  "points_to b a \<longleftrightarrow>
     destination_end b = (Some (source_node_id a), Some (source_port_id a))"

definition same_ends :: "link \<Rightarrow> link \<Rightarrow> bool" where
  "same_ends a b \<longleftrightarrow> source_end a = source_end b \<and> destination_end a = destination_end b"

definition consistent :: "link list \<Rightarrow> bool" where
  "consistent ls \<longleftrightarrow>
     distinct (map source_end ls) \<and>
     (\<forall>a\<in>set ls. \<forall>b\<in>set ls. points_to b a \<longrightarrow> points_to a b) \<and>
     (\<forall>a\<in>set ls. \<not> points_to a a)"

text \<open>The state of the second loop of \<open>generate_links\<close> on a consistent list
  \<open>orig\<close>, with the iterator at index \<open>i\<close>: no link of the list points to a link that
  has its id, every link comes from \<open>orig\<close>, and a link of \<open>orig\<close> that is gone points
  to a link that has its id.\<close>

definition dedup_inv :: "link list \<Rightarrow> nat \<Rightarrow> link list \<Rightarrow> bool" where
  "dedup_inv orig i lnks \<longleftrightarrow>
     consistent lnks \<and> i \<le> length lnks \<and>
     (\<forall>x\<in>set (take i lnks). \<forall>y\<in>set lnks. \<not> points_to y x) \<and>
     (\<forall>l\<in>set lnks. \<exists>g\<in>set orig. same_ends l g) \<and>
     (\<forall>g\<in>set orig. (\<exists>l\<in>set lnks. same_ends l g) \<or> (\<exists>x\<in>set (take i lnks). points_to g x))"

definition same_cable :: "link \<Rightarrow> link \<Rightarrow> bool" where
  "same_cable a b \<longleftrightarrow> same_ends a b \<or> (points_to a b \<and> points_to b a)"

definition strip_port :: "port \<Rightarrow> port" where
  "strip_port p = p\<lparr>p_link_id := None\<rparr>"

definition strip_node :: "node \<Rightarrow> node" where
  "strip_node nd = nd\<lparr>n_ports := map_option (map strip_port) (n_ports nd)\<rparr>"

definition node_named :: "string \<Rightarrow> node \<Rightarrow> bool" where
  "node_named nm nd \<longleftrightarrow> map_of (n_properties nd) ''name'' = Some (PV (S nm))"

definition nodes_complete :: "node list \<Rightarrow> bool" where
  "nodes_complete nodes \<longleftrightarrow>
     (\<forall>nd\<in>set nodes. n_ports nd \<noteq> None \<and> map_of (n_properties nd) ''name'' \<noteq> None)"

definition expandable :: "catalog \<Rightarrow> slink \<Rightarrow> bool" where
  "expandable cat s \<longleftrightarrow>
     (interface_re_search (dest_port s) \<longrightarrow>
        map_of (PORT_TYPES cat) (upper [hd (dest_port s)]) \<noteq> None)"

definition has_port_id :: "node list \<Rightarrow> int \<Rightarrow> int \<Rightarrow> bool" where
  "has_port_id nodes n p \<longleftrightarrow>
     (\<exists>nd\<in>set nodes. n_id nd = n \<and> (\<exists>ps. n_ports nd = Some ps \<and> p \<in> p_id ` set ps))"

text \<open>A router whose only interface key names a port it does not have (\<open>f1/0\<close>) and a
  device that does not exist (\<open>R9\<close>).\<close>

definition dangling_router :: "device pydict" where
  "dangling_router =
     [(''R1'', [(''hv_id'', I 0), (''node_id'', I 1), (''type'', S ''Router''),
                (''model'', S ''c7200''), (''x'', I 0), (''y'', I 0), (''f1/0'', S ''R9 f0/0'')])]"

text \<open>The ids of the nodes and of their ports.\<close>

definition port_ids :: "node list \<Rightarrow> (int \<times> int list option) list" where
  "port_ids nodes = map (\<lambda>nd. (n_id nd, map_option (map p_id) (n_ports nd))) nodes"

text \<open>Two routers on an Ethernet switch; each of the two cables is declared by the router
  and by the switch.\<close>

definition switched_pair :: "device pydict" where
  "switched_pair =
     [(''R1'', [(''hv_id'', I 0), (''node_id'', I 1), (''type'', S ''Router''),
                (''model'', S ''c7200''), (''x'', I 0), (''y'', I 0), (''f0/0'', S ''SW1 1'')]),
      (''R2'', [(''hv_id'', I 0), (''node_id'', I 2), (''type'', S ''Router''),
                (''model'', S ''c7200''), (''x'', I 0), (''y'', I 0), (''f0/0'', S ''SW1 2'')]),
      (''SW1'', [(''node_id'', I 3), (''type'', S ''EthernetSwitch''), (''x'', I 0), (''y'', I 0),
                 (''1'', S ''access 1 R1 f0/0''), (''2'', S ''access 1 R2 f0/0'')])]"

text \<open>The nodes and the symbolic links that \<open>generate_nodes\<close> computes for
  \<open>switched_pair\<close> (lemma \<open>switched_pair_generate\<close>).\<close>

definition switched_pair_nodes :: "node list" where
  "switched_pair_nodes =
     two_routers_nodes @
     [\<lparr>n_id = 3, n_server_id = 1, n_x = I 0, n_y = I 0, n_type = ''EthernetSwitch'',
       n_description = ''EthernetSwitch'', n_router_id = None,
       n_ports = Some
         [\<lparr>p_name = ''1'', p_id = 5, p_port_number = Some 1, p_slot_number = None,
           p_type = Some ''access'', p_vlan = Some 1, p_stub = False, p_link_id = None\<rparr>,
          \<lparr>p_name = ''2'', p_id = 6, p_port_number = Some 2, p_slot_number = None,
           p_type = Some ''access'', p_vlan = Some 1, p_stub = False, p_link_id = None\<rparr>],
       n_label_text = ''SW1'',
       n_properties = [(''name'', PV (S ''SW1''))]\<rparr>]"

definition switched_pair_links :: "slink list" where
  "switched_pair_links =
     [calc_link 1 1 (''SW1'', ''1''), calc_link 2 3 (''SW1'', ''2''),
      calc_link 3 5 (''R1'', ''f0/0''), calc_link 3 6 (''R2'', ''f0/0'')]"

text \<open>A router that names an existing router and a port that router does not have.\<close>

definition unknown_port :: "device pydict" where
  "unknown_port =
     [(''R1'', [(''hv_id'', I 0), (''node_id'', I 1), (''type'', S ''Router''),
                (''model'', S ''c7200''), (''x'', I 0), (''y'', I 0), (''f0/0'', S ''R2 f5/0'')]),
      (''R2'', [(''hv_id'', I 0), (''node_id'', I 2), (''type'', S ''Router''),
                (''model'', S ''c7200''), (''x'', I 0), (''y'', I 0)])]"

text \<open>Two references over the nodes of \<open>two_routers\<close>: one to a device that does
  not exist, one to a port that an existing device does not have.\<close>

definition unresolved_links :: "slink list" where
  "unresolved_links = [calc_link 1 1 (''R9'', ''f0/0''), calc_link 2 3 (''R1'', ''f5/0'')]"

text \<open>A router with a cable between two of its own ports, declared on \<open>f0/0\<close>.\<close>

definition looped_router :: "device pydict" where
  "looped_router =
     [(''R1'', [(''hv_id'', I 0), (''node_id'', I 1), (''type'', S ''Router''),
                (''model'', S ''c7200''), (''x'', I 0), (''y'', I 0), (''f0/0'', S ''R1 f0/1'')])]"

text \<open>The link back-references of the ports of every node.\<close>

definition link_refs :: "node list \<Rightarrow> (int \<times> (int \<times> int option) list option) list" where
  "link_refs nodes =
     map (\<lambda>nd. (n_id nd, map_option (map (\<lambda>p. (p_id p, p_link_id p))) (n_ports nd))) nodes"

text \<open>The hypervisor configuration that a device refers to through \<open>hv_id\<close>, and the NPE
  and the chassis it carries (the chassis of a device is \<open>''\<close> when none is given).\<close>

definition device_hv :: "hypervisors \<Rightarrow> device \<Rightarrow> val pydict option" where
  "device_hv hyp dev = (case map_of dev ''hv_id'' of Some (I h) \<Rightarrow> map_of hyp h | _ \<Rightarrow> None)"

definition npe_of :: "hypervisors \<Rightarrow> device \<Rightarrow> val option" where
  "npe_of hyp dev = (case device_hv hyp dev of None \<Rightarrow> None | Some hv \<Rightarrow> map_of hv ''npe'')"

definition chassis_of :: "hypervisors \<Rightarrow> device \<Rightarrow> val" where
  "chassis_of hyp dev =
     (case device_hv hyp dev of
        None \<Rightarrow> S []
      | Some hv \<Rightarrow> (case map_of hv ''chassis'' of None \<Rightarrow> S [] | Some c \<Rightarrow> c))"

text \<open>A port of the given name at the given slot and position.\<close>

definition port_at :: "port list \<Rightarrow> string \<Rightarrow> slot \<Rightarrow> int \<Rightarrow> bool" where
  "port_at ports nm sl num \<longleftrightarrow>
     (\<exists>p\<in>set ports. p_name p = nm \<and> p_slot_number p = Some sl \<and> p_port_number p = Some num)"

text \<open>The ports whose slot number is the integer 0: those of the motherboard and of the
  default cards. The slot number of a port of a declared slot is a one-character string.\<close>

definition slot0_ports :: "port list \<Rightarrow> port list" where
  "slot0_ports ports = filter (\<lambda>p. p_slot_number p = Some (SlotInt 0)) ports"

definition in_slot0 :: "port \<Rightarrow> bool" where
  "in_slot0 p \<longleftrightarrow> p_slot_number p = Some (SlotInt 0) \<or> p_slot_number p = Some (SlotStr ''0'')"

text \<open>Hypervisor configurations without NPE, with the NPE-G2, with another NPE, and of a
  3660.\<close>

definition npe_hypervisors :: hypervisors where
  "npe_hypervisors =
     [(0, [(''model'', S ''c7200''), (''image'', S ''/images/c7200.image'')]),
      (1, [(''model'', S ''c7200''), (''image'', S ''/images/c7200.image''),
           (''npe'', S ''npe-g2'')]),
      (2, [(''model'', S ''c7200''), (''image'', S ''/images/c7200.image''),
           (''npe'', S ''npe-400'')]),
      (3, [(''model'', S ''c3600''), (''image'', S ''/images/c3660.image''),
           (''chassis'', S ''3660'')])]"

text \<open>A 7200 on the hypervisor \<open>h\<close>; its \<open>slot0\<close> key is the one that the loop over
  the keys leaves out.\<close>

definition router_7200 :: "int \<Rightarrow> device" where
  "router_7200 h =
     [(''hv_id'', I h), (''node_id'', I 1), (''type'', S ''Router''), (''model'', S ''c7200''),
      (''x'', I 0), (''y'', I 0), (''slot0'', S ''C7200-IO-2FE'')]"

definition router_3660 :: device where
  "router_3660 =
     [(''hv_id'', I 3), (''node_id'', I 1), (''type'', S ''Router''), (''model'', S ''c3600''),
      (''x'', I 0), (''y'', I 0)]"

text \<open>A catalogue whose model table gives the 3660 no motherboard port.\<close>

definition bare_catalog :: catalog where
  "bare_catalog = sample_catalog\<lparr>MODEL_MATRIX := [(''c3600'', [(''3660'', (0, None))])]\<rparr>"

text \<open>A router whose \<open>f0/0\<close> is cabled to the interface \<open>e0\<close> of a QEMU host. The node of
  a QEMU host has no \<open>'ports'\<close> key.\<close>

definition router_to_qemu :: "device pydict" where
  "router_to_qemu =
     [(''QEMU1'', [(''node_id'', I 2), (''type'', S ''QEMU''), (''x'', I 0), (''y'', I 0),
                   (''e0'', S ''R1 f0/0'')]),
      (''R1'', [(''hv_id'', I 0), (''node_id'', I 1), (''type'', S ''Router''),
                (''model'', S ''c7200''), (''x'', I 0), (''y'', I 0), (''f0/0'', S ''QEMU1 e0'')])]"

section \<open>Properties\<close>

subsection \<open>Section classifier\<close>

lemma set_get_instances_loop:
  "set (get_instances_loop ip_ok items acc) =
     set acc \<union> {item \<in> set items. CHR '':'' \<in> set item \<and>
                                    ip_ok (takeWhile (\<lambda>c. c \<noteq> CHR '':'') item)}"
proof (induction items arbitrary: acc)
  case Nil
  show ?case by simp
next
  case (Cons item items)
  have tk: "take (length (takeWhile (\<lambda>c. c \<noteq> CHR '':'') item)) item =
            takeWhile (\<lambda>c. c \<noteq> CHR '':'') item"
    by (simp add: takeWhile_eq_take [symmetric])
  show ?case
    by (auto simp: Cons.IH Let_def tk)
qed

lemma set_sorted_keys: "set (sorted_keys d) = fst ` set d"
  by (simp add: sorted_keys_def)

text \<open>
  C9. A top-level section name is in the result of \<open>get_instances\<close> exactly when it
  contains a colon and the text before its first colon is accepted by \<open>ip_address\<close>;
  no other name of the mapping is.
\<close>

theorem get_instances_classifies:
  "item \<in> set (get_instances ip_ok config) \<longleftrightarrow>
     item \<in> fst ` set config \<and> CHR '':'' \<in> set item \<and>
     ip_ok (takeWhile (\<lambda>c. c \<noteq> CHR '':'') item)"
  by (auto simp: get_instances_def set_get_instances_loop set_sorted_keys)

theorem get_instances_classifies_witness:
  "''127.0.0.1:7200'' \<in> set (get_instances (\<lambda>a. a = ''127.0.0.1'')
       [(''GNS3-DATA'', ()), (''127.0.0.1:7200'', ()), (''host:7200'', ())]) \<and>
   ''host:7200'' \<notin> set (get_instances (\<lambda>a. a = ''127.0.0.1'')
       [(''GNS3-DATA'', ()), (''127.0.0.1:7200'', ()), (''host:7200'', ())]) \<and>
   ''GNS3-DATA'' \<notin> set (get_instances (\<lambda>a. a = ''127.0.0.1'')
       [(''GNS3-DATA'', ()), (''127.0.0.1:7200'', ()), (''host:7200'', ())])"
  by (simp add: get_instances_classifies)

subsection \<open>Device names and types\<close>

text \<open>
  C4. The type tag is the one of the first matching prefix, but the display name is the key
  with every occurrence of the prefix and a space deleted, not only the leading one: the
  hub named \<open>Hub 1\<close>, whose key is \<open>Hub Hub 1\<close>, comes out as \<open>1\<close>.
\<close>

theorem device_typename_deletes_every_occurrence:
  "device_typename ''Hub Hub 1'' = Inr (''1'', mk_dev_type ''Hub'' ''Ethernet hub'' ''EthernetHub'')"
  by code_simp

subsection \<open>Destinations on clouds\<close>

text \<open>
  C7. Only the first cloud of the node list is searched. With two clouds, the switch port
  towards the second cloud (\<open>nio_gen_eth:eth1\<close>, a stub port of node 2) is left without a
  destination.
\<close>

theorem nio_search_stops_at_first_cloud:
  "map_sum id fst (convert sample_catalog [] two_clouds) =
     Inr [\<lparr>destination_node_id = Some 1, destination_port_id = Some 1,
            source_port_id = 3, source_node_id = 3, l_id = Some 1\<rparr>,
          \<lparr>destination_node_id = None, destination_port_id = None,
            source_port_id = 4, source_node_id = 3, l_id = Some 2\<rparr>]"
  by code_simp

subsection \<open>The text of an integer\<close>

lemma digit_char_inj: "a < 10 \<Longrightarrow> b < 10 \<Longrightarrow> digit_char a = digit_char b \<Longrightarrow> a = b"
proof -
  assume a: "a < 10" and b: "b < 10" and e: "digit_char a = digit_char b"
  have d: "distinct ''0123456789''" by simp
  have l: "length ''0123456789'' = 10" by simp
  from e show "a = b"
    unfolding digit_char_def using nth_eq_iff_index_eq [OF d, of a b] a b l by simp
qed

lemma digit_char_is_digit: "a < 10 \<Longrightarrow> is_digit (digit_char a)"
  unfolding digit_char_def is_digit_def
  by (rule nth_mem) simp

lemma str_nat_digits: "c \<in> set (str_nat n) \<Longrightarrow> is_digit c"
proof (induction n rule: str_nat.induct)
  case (1 n)
  show ?case
  proof (cases "n < 10")
    case True
    with "1.prems" show ?thesis
      by (simp add: str_nat.simps [of n] digit_char_is_digit)
  next
    case False
    with "1.prems" "1.IH" show ?thesis
      by (auto simp: str_nat.simps [of n] digit_char_is_digit)
  qed
qed

lemma str_nat_not_Nil: "str_nat n \<noteq> []"
  by (simp add: str_nat.simps [of n])

lemma str_nat_inj: "str_nat m = str_nat n \<Longrightarrow> m = n"
proof (induction m arbitrary: n rule: str_nat.induct)
  case (1 m)
  show ?case
  proof (cases "m < 10")
    case m: True
    show ?thesis
    proof (cases "n < 10")
      case True
      with m "1.prems" show ?thesis
        by (simp add: str_nat.simps [of m] str_nat.simps [of n] digit_char_inj)
    next
      case False
      with m "1.prems" show ?thesis
        using str_nat_not_Nil [of "n div 10"]
        by (simp add: str_nat.simps [of m] str_nat.simps [of n])
    qed
  next
    case m: False
    show ?thesis
    proof (cases "n < 10")
      case True
      with m "1.prems" show ?thesis
        using str_nat_not_Nil [of "m div 10"]
        by (simp add: str_nat.simps [of m] str_nat.simps [of n])
    next
      case False
      with m "1.prems" have e: "str_nat (m div 10) = str_nat (n div 10)"
        and d: "digit_char (m mod 10) = digit_char (n mod 10)"
        by (simp_all add: str_nat.simps [of m] str_nat.simps [of n])
      from "1.IH" [OF m e] have "m div 10 = n div 10" .
      moreover from d have "m mod 10 = n mod 10"
        by (intro digit_char_inj) simp_all
      ultimately show ?thesis
        by (metis div_mult_mod_eq)
    qed
  qed
qed

lemma is_digit_not_minus: "is_digit c \<Longrightarrow> c \<noteq> CHR ''-''"
  by (auto simp: is_digit_def)

lemma str_int_inj: "str_int a = str_int b \<Longrightarrow> a = b"
proof -
  assume e: "str_int a = str_int b"
  have hd: "\<And>n. hd (str_nat n) \<noteq> CHR ''-''"
    using str_nat_digits str_nat_not_Nil is_digit_not_minus by (metis hd_in_set)
  have ne: "\<And>m n. CHR ''-'' # str_nat m \<noteq> str_nat n"
    using hd by (metis list.sel(1))
  show ?thesis
  proof (cases "a < 0")
    case a: True
    show ?thesis
    proof (cases "b < 0")
      case True
      with a e have "nat (- a) = nat (- b)" by (simp add: str_int_def str_nat_inj)
      with a True show ?thesis by simp
    next
      case False
      with a e ne show ?thesis by (simp add: str_int_def)
    qed
  next
    case a: False
    show ?thesis
    proof (cases "b < 0")
      case True
      with a e ne [of "nat (- b)" "nat a"] show ?thesis by (simp add: str_int_def)
    next
      case False
      with a e have "nat a = nat b" by (simp add: str_int_def str_nat_inj)
      with a False show ?thesis by simp
    qed
  qed
qed

lemma str_int_no_colon: "CHR '':'' \<notin> set (str_int a)"
  using str_nat_digits by (auto simp: str_int_def is_digit_def)

lemma str_int_not_None: "str_int a \<noteq> ''None''"
proof
  assume e: "str_int a = ''None''"
  have "CHR ''N'' \<in> set (str_int a)" by (simp add: e)
  then show False
    using str_nat_digits by (auto simp: str_int_def is_digit_def split: if_splits)
qed

lemma str_opt_no_colon: "CHR '':'' \<notin> set (str_opt v)"
  by (cases v) (simp_all add: str_opt_def str_int_no_colon)

lemma str_int_eq_str_opt: "str_int a = str_opt v \<longleftrightarrow> v = Some a"
  by (cases v) (auto simp: str_opt_def str_int_not_None dest: str_int_inj)

lemma colon_split_eq:
  assumes "CHR '':'' \<notin> set a" "CHR '':'' \<notin> set c"
  shows "a @ CHR '':'' # b = c @ CHR '':'' # d \<longleftrightarrow> a = c \<and> b = d"
proof
  assume e: "a @ CHR '':'' # b = c @ CHR '':'' # d"
  have "takeWhile (\<lambda>x. x \<noteq> CHR '':'') (a @ CHR '':'' # b) = a"
    using assms(1) by (subst takeWhile_append2) auto
  moreover have "takeWhile (\<lambda>x. x \<noteq> CHR '':'') (c @ CHR '':'' # d) = c"
    using assms(2) by (subst takeWhile_append2) auto
  ultimately have "a = c" using e by simp
  with e show "a = c \<and> b = d" by simp
qed simp

lemma t_link_eq_d_link:
  "t_link a = d_link b \<longleftrightarrow>
     destination_node_id b = Some (source_node_id a) \<and>
     destination_port_id b = Some (source_port_id a)"
  unfolding t_link_def d_link_def
  using colon_split_eq [OF str_int_no_colon str_opt_no_colon]
  by (auto simp: str_int_eq_str_opt)

subsection \<open>The second loop of generate_links\<close>

lemma t_link_points_to: "t_link a = d_link b \<longleftrightarrow> points_to b a"
  by (simp add: t_link_eq_d_link points_to_def destination_end_def)

lemma first_index_None: "first_index P xs = None \<longleftrightarrow> (\<forall>x\<in>set xs. \<not> P x)"
  by (induction xs) auto

lemma first_index_Some:
  "first_index P xs = Some j \<Longrightarrow> j < length xs \<and> P (xs ! j) \<and> (\<forall>k<j. \<not> P (xs ! k))"
proof (induction xs arbitrary: j)
  case Nil
  then show ?case by simp
next
  case (Cons x xs)
  show ?case
  proof (cases "P x")
    case True
    with Cons.prems show ?thesis by simp
  next
    case False
    with Cons.prems obtain j' where j': "first_index P xs = Some j'" "j = Suc j'"
      by auto
    from Cons.IH [OF j'(1)] False j'(2) show ?thesis
      by (auto simp: nth_Cons split: nat.splits)
  qed
qed

lemma first_index_distinct:
  "distinct xs \<Longrightarrow> j < length xs \<Longrightarrow> first_index (\<lambda>x. x = xs ! j) xs = Some j"
proof (induction xs arbitrary: j)
  case Nil
  then show ?case by simp
next
  case (Cons x xs)
  then show ?case
    by (cases j) auto
qed

lemma points_to_l_id [simp]:
  "points_to (b\<lparr>l_id := v\<rparr>) a = points_to b a"
  "points_to b (a\<lparr>l_id := v\<rparr>) = points_to b a"
  by (simp_all add: points_to_def destination_end_def)

lemma source_end_l_id [simp]: "source_end (a\<lparr>l_id := v\<rparr>) = source_end a"
  by (simp add: source_end_def)

lemma same_ends_l_id [simp]:
  "same_ends (a\<lparr>l_id := v\<rparr>) b = same_ends a b"
  "same_ends a (b\<lparr>l_id := v\<rparr>) = same_ends a b"
  by (simp_all add: same_ends_def source_end_def destination_end_def)

lemma same_ends_refl [simp]: "same_ends a a"
  by (simp add: same_ends_def)

lemma dedup_step_cases:
  assumes c: "consistent lnks" and i: "i < length lnks"
    and d: "\<forall>x\<in>set (take i lnks). \<forall>y\<in>set lnks. \<not> points_to y x"
  shows "((\<forall>y\<in>set lnks. \<not> points_to y (lnks ! i)) \<and>
          fst (dedup_step i n lnks) = lnks[i := (lnks ! i)\<lparr>l_id := Some n\<rparr>]) \<or>
         (\<exists>pre mid y post. lnks = pre @ lnks ! i # mid @ y # post \<and> length pre = i \<and>
            points_to y (lnks ! i) \<and>
            fst (dedup_step i n lnks) = pre @ (lnks ! i)\<lparr>l_id := Some n\<rparr> # mid @ post)"
proof (cases "first_index (\<lambda>link2. t_link (lnks ! i) = d_link link2) lnks")
  case None
  then have "\<forall>y\<in>set lnks. \<not> points_to y (lnks ! i)"
    by (simp add: first_index_None t_link_points_to)
  moreover from None have "fst (dedup_step i n lnks) = lnks[i := (lnks ! i)\<lparr>l_id := Some n\<rparr>]"
    by (simp add: dedup_step_def Let_def)
  ultimately show ?thesis by blast
next
  case (Some j)
  from first_index_Some [OF Some] have j: "j < length lnks" and pj: "points_to (lnks ! j) (lnks ! i)"
    by (simp_all add: t_link_points_to)
  from c have dist: "distinct lnks"
    by (simp add: consistent_def distinct_map)
  have mem_i: "lnks ! i \<in> set lnks" and mem_j: "lnks ! j \<in> set lnks"
    using i j by simp_all
  from c mem_i mem_j pj have pi: "points_to (lnks ! i) (lnks ! j)"
    by (auto simp: consistent_def)
  have "j \<noteq> i"
    using c mem_i pj by (auto simp: consistent_def)
  moreover have "\<not> j < i"
  proof
    assume "j < i"
    then have "lnks ! j \<in> set (take i lnks)"
      using i by (auto simp: in_set_conv_nth)
    with d mem_i pi show False by blast
  qed
  ultimately have ji: "i < j" by simp
  have k: "first_index (\<lambda>x. x = lnks ! j) lnks = Some j"
    by (rule first_index_distinct [OF dist j])
  have step: "fst (dedup_step i n lnks) = (delete_at j lnks)[i := (lnks ! i)\<lparr>l_id := Some n\<rparr>]"
    using Some k ji by (simp add: dedup_step_def Let_def)
  define pre where "pre = take i lnks"
  define mid where "mid = take (j - Suc i) (drop (Suc i) lnks)"
  define post where "post = drop (Suc j) lnks"
  have l1: "lnks = pre @ lnks ! i # drop (Suc i) lnks"
    unfolding pre_def using i by (simp add: id_take_nth_drop [symmetric])
  have "drop (Suc i) lnks = mid @ (drop (Suc i) lnks) ! (j - Suc i) # drop (Suc (j - Suc i)) (drop (Suc i) lnks)"
    unfolding mid_def using ji j by (intro id_take_nth_drop) simp
  with ji j have l2: "drop (Suc i) lnks = mid @ lnks ! j # post"
    by (simp add: post_def)
  from l1 l2 have dec: "lnks = pre @ lnks ! i # mid @ lnks ! j # post" by simp
  have lp: "length pre = i" unfolding pre_def using i by simp
  have lm: "length mid = j - Suc i" unfolding mid_def using ji j by simp
  have "length (pre @ lnks ! i # mid) = j"
    using ji lp lm by simp
  then have "take j ((pre @ lnks ! i # mid) @ lnks ! j # post) = pre @ lnks ! i # mid"
    by (simp del: append_assoc append.simps)
  with dec have "take j lnks = pre @ lnks ! i # mid"
    by simp
  moreover have "drop (Suc j) lnks = post" by (simp add: post_def)
  ultimately have "delete_at j lnks = pre @ lnks ! i # mid @ post"
    by (simp add: delete_at_def)
  with step lp have "fst (dedup_step i n lnks) = pre @ (lnks ! i)\<lparr>l_id := Some n\<rparr> # mid @ post"
    by (simp add: list_update_append)
  with dec lp pj show ?thesis by blast
qed

lemma dedup_loop_links_rule:
  assumes "dedup_loop i n lnks nodes = Inr (final, nodes')"
    and "P i lnks"
    and step: "\<And>i n lnks. i < length lnks \<Longrightarrow> P i lnks \<Longrightarrow> P (Suc i) (fst (dedup_step i n lnks))"
  shows "\<exists>i'. length final \<le> i' \<and> P i' final"
  using assms(1,2)
proof (induction i n lnks nodes rule: dedup_loop.induct)
  case (1 i link_id lnks nodes)
  show ?case
  proof (cases "i < length lnks")
    case True
    with "1.prems"(1) obtain nodes1 where
      a: "add_node_connections (snd (dedup_step i link_id lnks)) nodes = Inr nodes1" and
      r: "dedup_loop (Suc i) (link_id + 1) (fst (dedup_step i link_id lnks)) nodes1 = Inr (final, nodes')"
      by (auto simp: dedup_loop.simps [of i link_id lnks nodes] split: sum.splits)
    from step [OF True "1.prems"(2)] have "P (Suc i) (fst (dedup_step i link_id lnks))" .
    from "1.IH" [OF True a r this] show ?thesis .
  next
    case False
    with "1.prems" show ?thesis
      by (auto simp: dedup_loop.simps [of i link_id lnks nodes] intro!: exI [of _ i])
  qed
qed

lemma same_ends_points_to: "same_ends l g \<Longrightarrow> points_to l a = points_to g a"
  by (simp add: same_ends_def points_to_def)

lemma points_to_same_source:
  "points_to a x \<Longrightarrow> points_to a y \<Longrightarrow> source_end x = source_end y"
  by (simp add: points_to_def source_end_def)

lemma inv_step_nomatch:
  assumes inv: "dedup_inv orig (length pre) (pre @ lk # rest)"
    and none: "\<forall>y\<in>set (pre @ lk # rest). \<not> points_to y lk"
  shows "dedup_inv orig (Suc (length pre)) (pre @ lk\<lparr>l_id := Some n\<rparr> # rest)"
proof -
  let ?lk' = "lk\<lparr>l_id := Some n\<rparr>"
  from inv have c: "consistent (pre @ lk # rest)"
    and d: "\<forall>x\<in>set pre. \<forall>y\<in>set (pre @ lk # rest). \<not> points_to y x"
    and o1: "\<forall>l\<in>set (pre @ lk # rest). \<exists>g\<in>set orig. same_ends l g"
    and o2: "\<forall>g\<in>set orig. (\<exists>l\<in>set (pre @ lk # rest). same_ends l g) \<or> (\<exists>x\<in>set pre. points_to g x)"
    by (simp_all add: dedup_inv_def)
  have c': "consistent (pre @ ?lk' # rest)"
    using c unfolding consistent_def by auto
  have d': "\<forall>x\<in>set (pre @ [?lk']). \<forall>y\<in>set (pre @ ?lk' # rest). \<not> points_to y x"
    using d none by auto
  have o1': "\<forall>l\<in>set (pre @ ?lk' # rest). \<exists>g\<in>set orig. same_ends l g"
    using o1 by auto
  have o2': "\<forall>g\<in>set orig. (\<exists>l\<in>set (pre @ ?lk' # rest). same_ends l g) \<or>
               (\<exists>x\<in>set (pre @ [?lk']). points_to g x)"
  proof
    fix g assume "g \<in> set orig"
    with o2 have "(\<exists>l\<in>set (pre @ lk # rest). same_ends l g) \<or> (\<exists>x\<in>set pre. points_to g x)"
      by blast
    then show "(\<exists>l\<in>set (pre @ ?lk' # rest). same_ends l g) \<or>
               (\<exists>x\<in>set (pre @ [?lk']). points_to g x)"
      by auto
  qed
  show ?thesis
    unfolding dedup_inv_def using c' d' o1' o2' by simp
qed

lemma inv_step_match:
  assumes inv: "dedup_inv orig (length pre) (pre @ lk # mid @ y # post)"
    and py: "points_to y lk"
  shows "dedup_inv orig (Suc (length pre)) (pre @ lk\<lparr>l_id := Some n\<rparr> # mid @ post)"
proof -
  let ?lk' = "lk\<lparr>l_id := Some n\<rparr>"
  from inv have c: "consistent (pre @ lk # mid @ y # post)"
    and d: "\<forall>x\<in>set pre. \<forall>z\<in>set (pre @ lk # mid @ y # post). \<not> points_to z x"
    and o1: "\<forall>l\<in>set (pre @ lk # mid @ y # post). \<exists>g\<in>set orig. same_ends l g"
    and o2: "\<forall>g\<in>set orig. (\<exists>l\<in>set (pre @ lk # mid @ y # post). same_ends l g) \<or>
               (\<exists>x\<in>set pre. points_to g x)"
    by (simp_all add: dedup_inv_def)
  from c py have pl: "points_to lk y"
    by (auto simp: consistent_def)
  have dist: "distinct (map source_end (pre @ lk # mid @ y # post))"
    using c unfolding consistent_def by simp
  have c': "consistent (pre @ ?lk' # mid @ post)"
    using c unfolding consistent_def by auto
  have only_y: "\<not> points_to z lk" if z: "z \<in> set pre \<union> set mid \<union> set post \<union> {lk}" for z
  proof
    assume pz: "points_to z lk"
    from z have "z \<in> set (pre @ lk # mid @ y # post)" by auto
    with c pz have "points_to lk z" by (auto simp: consistent_def)
    with pl have "source_end y = source_end z" by (rule points_to_same_source)
    with dist z show False by (auto simp: image_iff)
  qed
  have d': "\<forall>x\<in>set (pre @ [?lk']). \<forall>z\<in>set (pre @ ?lk' # mid @ post). \<not> points_to z x"
  proof (intro ballI)
    fix x z assume x: "x \<in> set (pre @ [?lk'])" and z: "z \<in> set (pre @ ?lk' # mid @ post)"
    from z have z': "z = ?lk' \<or> z \<in> set pre \<union> set mid \<union> set post" by auto
    show "\<not> points_to z x"
    proof (cases "x \<in> set pre")
      case True
      with d z' show ?thesis by auto
    next
      case False
      with x have x': "x = ?lk'" by simp
      from z' show ?thesis
      proof
        assume "z = ?lk'"
        with only_y [of lk] x' show ?thesis by simp
      next
        assume "z \<in> set pre \<union> set mid \<union> set post"
        with only_y [of z] x' show ?thesis by simp
      qed
    qed
  qed
  have o1': "\<forall>l\<in>set (pre @ ?lk' # mid @ post). \<exists>g\<in>set orig. same_ends l g"
    using o1 by auto
  have o2': "\<forall>g\<in>set orig. (\<exists>l\<in>set (pre @ ?lk' # mid @ post). same_ends l g) \<or>
               (\<exists>x\<in>set (pre @ [?lk']). points_to g x)"
  proof
    fix g assume "g \<in> set orig"
    with o2 have "(\<exists>l\<in>set (pre @ lk # mid @ y # post). same_ends l g) \<or>
                  (\<exists>x\<in>set pre. points_to g x)"
      by blast
    then show "(\<exists>l\<in>set (pre @ ?lk' # mid @ post). same_ends l g) \<or>
               (\<exists>x\<in>set (pre @ [?lk']). points_to g x)"
    proof
      assume "\<exists>l\<in>set (pre @ lk # mid @ y # post). same_ends l g"
      then obtain l where l: "l \<in> set (pre @ lk # mid @ y # post)" "same_ends l g" by blast
      show ?thesis
      proof (cases "l = y")
        case True
        with l py have "points_to g lk" by (simp add: same_ends_points_to)
        then show ?thesis by simp
      next
        case False
        with l(1) have "l = lk \<or> l \<in> set pre \<union> set mid \<union> set post"
          by auto
        with l(2) show ?thesis by auto
      qed
    next
      assume "\<exists>x\<in>set pre. points_to g x"
      then show ?thesis by auto
    qed
  qed
  show ?thesis
    unfolding dedup_inv_def using c' d' o1' o2' by simp
qed

lemma dedup_inv_step:
  assumes inv: "dedup_inv orig i lnks" and i: "i < length lnks"
  shows "dedup_inv orig (Suc i) (fst (dedup_step i n lnks))"
proof -
  define lk where "lk = lnks ! i"
  from inv have c: "consistent lnks"
    and d: "\<forall>x\<in>set (take i lnks). \<forall>y\<in>set lnks. \<not> points_to y x"
    by (simp_all add: dedup_inv_def)
  from dedup_step_cases [OF c i d, of n] show ?thesis
  proof (elim disjE conjE exE)
    assume none: "\<forall>y\<in>set lnks. \<not> points_to y (lnks ! i)"
      and new: "fst (dedup_step i n lnks) = lnks[i := (lnks ! i)\<lparr>l_id := Some n\<rparr>]"
    define pre where "pre = take i lnks"
    define rest where "rest = drop (Suc i) lnks"
    have dec: "lnks = pre @ lk # rest"
      unfolding pre_def rest_def lk_def using i by (simp add: id_take_nth_drop [symmetric])
    have lp: "i = length pre" unfolding pre_def using i by simp
    have new': "fst (dedup_step i n lnks) = pre @ lk\<lparr>l_id := Some n\<rparr> # rest"
      unfolding new pre_def rest_def lk_def using i by (simp add: upd_conv_take_nth_drop)
    from inv have "dedup_inv orig (length pre) (pre @ lk # rest)"
      unfolding dec lp [symmetric] .
    moreover from none have "\<forall>y\<in>set lnks. \<not> points_to y lk"
      by (simp add: lk_def)
    then have "\<forall>y\<in>set (pre @ lk # rest). \<not> points_to y lk"
      unfolding dec .
    ultimately have "dedup_inv orig (Suc (length pre)) (pre @ lk\<lparr>l_id := Some n\<rparr> # rest)"
      by (rule inv_step_nomatch)
    then show ?thesis
      by (simp add: new' lp [symmetric])
  next
    fix pre mid y post
    assume dec0: "lnks = pre @ lnks ! i # mid @ y # post" and lp0: "length pre = i"
      and py: "points_to y (lnks ! i)"
      and new: "fst (dedup_step i n lnks) = pre @ (lnks ! i)\<lparr>l_id := Some n\<rparr> # mid @ post"
    have dec: "lnks = pre @ lk # mid @ y # post"
      using dec0 by (simp add: lk_def)
    have lp: "i = length pre" using lp0 by simp
    from inv have "dedup_inv orig (length pre) (pre @ lk # mid @ y # post)"
      unfolding dec lp [symmetric] .
    moreover from py have "points_to y lk" by (simp add: lk_def)
    ultimately have "dedup_inv orig (Suc (length pre)) (pre @ lk\<lparr>l_id := Some n\<rparr> # mid @ post)"
      by (rule inv_step_match)
    then show ?thesis
      by (simp add: new lp [symmetric] lk_def)
  qed
qed

subsection \<open>Mirrored declarations\<close>

lemma dedup_loop_final:
  assumes run: "dedup_loop 0 n ls nodes = Inr (final, nodes')" and c: "consistent ls"
  shows "dedup_inv ls (length final) final"
proof -
  have "\<forall>l\<in>set ls. \<exists>g\<in>set ls. same_ends l g"
    and "\<forall>g\<in>set ls. \<exists>l\<in>set ls. same_ends l g"
    using same_ends_refl by blast+
  with c have init: "dedup_inv ls 0 ls"
    by (simp add: dedup_inv_def)
  have step: "dedup_inv ls (Suc i) (fst (dedup_step i m lnks))"
    if "i < length lnks" "dedup_inv ls i lnks" for i m lnks
    using that(2,1) by (rule dedup_inv_step)
  have "\<exists>i'. length final \<le> i' \<and> dedup_inv ls i' final"
    using run init step by (rule dedup_loop_links_rule)
  then obtain i' where "length final \<le> i'" "dedup_inv ls i' final"
    by blast
  moreover from this(2) have "i' \<le> length final"
    by (simp add: dedup_inv_def)
  ultimately show ?thesis by simp
qed

lemma generate_links_Inr:
  assumes "resolve_links cat nodes self_links = Inr ls"
    and "generate_links cat self_links nodes = Inr (final, nodes')"
  shows "dedup_loop 0 1 ls nodes = Inr (final, nodes')"
  using assms by (simp add: generate_links_def)

lemma filter_length_one:
  assumes d: "distinct xs" and x: "x \<in> set xs" "P x"
    and u: "\<And>y. y \<in> set xs \<Longrightarrow> P y \<Longrightarrow> y = x"
  shows "length (filter P xs) = 1"
proof -
  have "set (filter P xs) \<subseteq> {x}" using u by fastforce
  moreover have "x \<in> set (filter P xs)" using x by simp
  ultimately have s: "set (filter P xs) = {x}" by blast
  have "distinct (filter P xs)" using d by simp
  then have "card (set (filter P xs)) = length (filter P xs)"
    by (rule distinct_card)
  with s show ?thesis by simp
qed

text \<open>
  What the second loop does on consistent declarations: two links that point to each other's
  source leave exactly one link between their two ports in the finalized list.
\<close>

theorem mirrored_pair_kept_once:
  assumes res: "resolve_links cat nodes self_links = Inr ls"
    and gen: "generate_links cat self_links nodes = Inr (final, nodes')"
    and cons: "consistent ls"
    and a: "a \<in> set ls" and b: "b \<in> set ls"
    and ab: "points_to a b" and ba: "points_to b a"
  shows "length (filter (\<lambda>l. same_ends l a \<or> same_ends l b) final) = 1"
proof -
  from dedup_loop_final [OF generate_links_Inr [OF res gen] cons]
  have inv: "dedup_inv ls (length final) final" .
  then have cf: "consistent final"
    and np: "\<forall>x\<in>set final. \<forall>y\<in>set final. \<not> points_to y x"
    and o1: "\<forall>l\<in>set final. \<exists>g\<in>set ls. same_ends l g"
    and o2: "\<forall>g\<in>set ls. (\<exists>l\<in>set final. same_ends l g) \<or> (\<exists>x\<in>set final. points_to g x)"
    by (simp_all add: dedup_inv_def)
  from cf have df: "distinct final" and dsf: "inj_on source_end (set final)"
    by (simp_all add: consistent_def distinct_map)
  from cons have ds: "inj_on source_end (set ls)"
    by (simp add: consistent_def distinct_map)
  have ex: "\<exists>l\<in>set final. same_ends l a \<or> same_ends l b"
  proof (cases "\<exists>l\<in>set final. same_ends l a")
    case True
    then show ?thesis by blast
  next
    case False
    with o2 a obtain x where x: "x \<in> set final" "points_to a x" by blast
    from o1 x(1) obtain g where g: "g \<in> set ls" "same_ends x g" by blast
    from x(2) ab have "source_end x = source_end b" by (rule points_to_same_source)
    with g(2) have "source_end g = source_end b" by (simp add: same_ends_def)
    from inj_onD [OF ds this g(1) b] have "g = b" .
    with g(2) x(1) show ?thesis by blast
  qed
  then obtain l where l: "l \<in> set final" "same_ends l a \<or> same_ends l b" by blast
  have uniq: "y = l" if y: "y \<in> set final" "same_ends y a \<or> same_ends y b" for y
  proof -
    have pa: "points_to u v" if "same_ends u a" "same_ends v b" for u v
      using ab that by (simp add: same_ends_def points_to_def source_end_def)
    have pb: "points_to u v" if "same_ends u b" "same_ends v a" for u v
      using ba that by (simp add: same_ends_def points_to_def source_end_def)
    have se: "source_end y = source_end l"
    proof (cases "same_ends y a")
      case ya: True
      show ?thesis
      proof (cases "same_ends l a")
        case True
        with ya show ?thesis by (simp add: same_ends_def)
      next
        case False
        with l(2) have "same_ends l b" by simp
        from pa [OF ya this] np l(1) y(1) show ?thesis by blast
      qed
    next
      case False
      with y(2) have yb: "same_ends y b" by simp
      show ?thesis
      proof (cases "same_ends l b")
        case True
        with yb show ?thesis by (simp add: same_ends_def)
      next
        case False
        with l(2) have "same_ends l a" by simp
        from pb [OF yb this] np l(1) y(1) show ?thesis by blast
      qed
    qed
    from inj_onD [OF dsf se y(1) l(1)] show ?thesis .
  qed
  show ?thesis
  proof (rule filter_length_one [of final l "\<lambda>l. same_ends l a \<or> same_ends l b", OF df l(1) l(2)])
    fix y assume "y \<in> set final" "same_ends y a \<or> same_ends y b"
    then show "y = l" by (rule uniq)
  qed
qed

lemma two_routers_generate:
  "generate_nodes sample_catalog sample_hypervisors two_routers init_state =
     Inr (two_routers_nodes, \<lparr>port_id = 5, links = two_routers_links, configs = []\<rparr>)"
  by code_simp

theorem mirrored_pair_kept_once_witness:
  "resolve_links sample_catalog two_routers_nodes two_routers_links =
     Inr [mk_link 1 1 (Some 2) (Some 3) None, mk_link 2 3 (Some 1) (Some 1) None] \<and>
   consistent [mk_link 1 1 (Some 2) (Some 3) None, mk_link 2 3 (Some 1) (Some 1) None] \<and>
   points_to (mk_link 1 1 (Some 2) (Some 3) None) (mk_link 2 3 (Some 1) (Some 1) None) \<and>
   points_to (mk_link 2 3 (Some 1) (Some 1) None) (mk_link 1 1 (Some 2) (Some 3) None) \<and>
   map_sum id fst (generate_links sample_catalog two_routers_links two_routers_nodes) =
     Inr [mk_link 1 1 (Some 2) (Some 3) (Some 1)] \<and>
   length (filter (\<lambda>l. same_ends l (mk_link 1 1 (Some 2) (Some 3) None) \<or>
                        same_ends l (mk_link 2 3 (Some 1) (Some 1) None))
             [mk_link 1 1 (Some 2) (Some 3) (Some 1)]) = 1"
proof -
  let ?a = "mk_link 1 1 (Some 2) (Some 3) None"
  let ?b = "mk_link 2 3 (Some 1) (Some 1) None"
  have res: "resolve_links sample_catalog two_routers_nodes two_routers_links = Inr [?a, ?b]"
    by code_simp
  have cons: "consistent [?a, ?b]" by code_simp
  have ab: "points_to ?a ?b" by code_simp
  have ba: "points_to ?b ?a" by code_simp
  have fin: "map_sum id fst (generate_links sample_catalog two_routers_links two_routers_nodes) =
     Inr [mk_link 1 1 (Some 2) (Some 3) (Some 1)]"
    by code_simp
  then obtain nodes' where gen:
    "generate_links sample_catalog two_routers_links two_routers_nodes =
       Inr ([mk_link 1 1 (Some 2) (Some 3) (Some 1)], nodes')"
    by (cases "generate_links sample_catalog two_routers_links two_routers_nodes") auto
  have a: "?a \<in> set [?a, ?b]" and b: "?b \<in> set [?a, ?b]" by simp_all
  from mirrored_pair_kept_once [OF res gen cons a b ab ba] res cons ab ba fin
  show ?thesis by simp
qed

text \<open>
  Claim C1 (two declarations of one cable, one from each side, leave exactly one link between
  the pair). The second loop of \<open>generate_links\<close> removes, from the list it is iterating
  over, the first link whose destination is the source of the current link, wherever that link
  stands and whatever its own source is. R2 and R3 declare the cable between their ports
  \<open>f0/0\<close> from both sides and R1 also names port \<open>f0/0\<close> of R2: the resolved
  links are 1:1 to 2:3, 2:3 to 3:5 and 3:5 to 2:3. On the second link the loop removes the first
  one, which is no mirror of it and already has the id 1; the list is shorter by one, so the
  iteration ends without visiting the third link. The finalized list holds both links between
  R2 and R3, the second one without an id, where the rule of the specification (remove a later
  link whose destination is the source of an earlier one) keeps the first two links and so one
  link for the pair.
\<close>

theorem mirrored_pair_kept_twice:
  "map_sum id fst (convert sample_catalog sample_hypervisors three_routers) =
     Inr [mk_link 2 3 (Some 3) (Some 5) (Some 2), mk_link 3 5 (Some 2) (Some 3) None] \<and>
   length (filter (\<lambda>l. same_ends l (mk_link 2 3 (Some 3) (Some 5) None) \<or>
                        same_ends l (mk_link 3 5 (Some 2) (Some 3) None))
             [mk_link 2 3 (Some 3) (Some 5) (Some 2), mk_link 3 5 (Some 2) (Some 3) None]) = 2"
  by code_simp

subsection \<open>The finalized link list\<close>

lemma same_ends_trans: "same_ends a b \<Longrightarrow> same_ends b c \<Longrightarrow> same_ends a c"
  by (simp add: same_ends_def)

lemma set_delete_at_subset: "set (delete_at k xs) \<subseteq> set xs"
  unfolding delete_at_def using set_take_subset [of k xs] set_drop_subset [of "Suc k" xs]
  by auto

lemma mem_delete_at: "l \<in> set xs \<Longrightarrow> k < length xs \<Longrightarrow> l \<noteq> xs ! k \<Longrightarrow> l \<in> set (delete_at k xs)"
proof -
  assume l: "l \<in> set xs" and k: "k < length xs" and ne: "l \<noteq> xs ! k"
  from k have "xs = take k xs @ xs ! k # drop (Suc k) xs"
    by (rule id_take_nth_drop)
  then have "set xs = set (take k xs) \<union> {xs ! k} \<union> set (drop (Suc k) xs)"
    by (metis Un_insert_right list.simps(15) set_append sup_bot.right_neutral Un_assoc insert_is_Un)
  with l ne show ?thesis by (auto simp: delete_at_def)
qed

lemma nth_delete_at:
  "k < length xs \<Longrightarrow> m < length xs - 1 \<Longrightarrow>
     delete_at k xs ! m = (if m < k then xs ! m else xs ! Suc m)"
  by (auto simp: delete_at_def nth_append min_def)

lemma length_delete_at: "k < length xs \<Longrightarrow> length (delete_at k xs) = length xs - 1"
  by (auto simp: delete_at_def)

lemma mem_update_or: "l \<in> set ys \<Longrightarrow> m < length ys \<Longrightarrow> l \<in> set (ys[m := x]) \<or> l = ys ! m"
proof -
  assume "l \<in> set ys" and m: "m < length ys"
  then obtain q where q: "q < length ys" "ys ! q = l" by (auto simp: in_set_conv_nth)
  show ?thesis
  proof (cases "q = m")
    case True
    with q show ?thesis by simp
  next
    case False
    with q have "ys[m := x] ! q = l" by simp
    with q(1) have "l \<in> set (ys[m := x])"
      by (metis length_list_update nth_mem)
    then show ?thesis ..
  qed
qed

lemma dedup_step_from:
  assumes i: "i < length lnks"
  shows "\<forall>l\<in>set (fst (dedup_step i n lnks)). \<exists>g\<in>set lnks. same_ends l g"
proof -
  let ?lk' = "(lnks ! i)\<lparr>l_id := Some n\<rparr>"
  have a: "\<exists>g\<in>set lnks. same_ends l g" if "l \<in> set (ys[m := ?lk'])" "set ys \<subseteq> set lnks" for l ys m
  proof -
    from that(1) have "l = ?lk' \<or> l \<in> set ys"
      using set_update_subset_insert [of ys m ?lk'] by auto
    then show ?thesis
    proof
      assume "l = ?lk'"
      then have "same_ends l (lnks ! i)" by simp
      with i show ?thesis by (metis nth_mem)
    next
      assume "l \<in> set ys"
      with that(2) have "l \<in> set lnks" by blast
      then show ?thesis using same_ends_refl by blast
    qed
  qed
  have b: "\<exists>g\<in>set lnks. same_ends l g" if "l \<in> set (delete_at k lnks)" for l k
    using that set_delete_at_subset [of k lnks] same_ends_refl by blast
  show ?thesis
    using a [OF _ set_delete_at_subset] a [OF _ subset_refl] b
    by (auto simp: dedup_step_def Let_def split: option.splits if_splits)
qed

lemma dedup_step_keeps:
  assumes i: "i < length lnks" and l: "l \<in> set lnks" and np: "\<not> points_to l (lnks ! i)"
  shows "\<exists>l'\<in>set (fst (dedup_step i n lnks)). same_ends l' l"
proof -
  let ?lk = "lnks ! i"
  let ?lk' = "?lk\<lparr>l_id := Some n\<rparr>"
  have upd: "\<exists>l'\<in>set (ys[m := ?lk']). same_ends l' l"
    if "l \<in> set ys" "m < length ys" "ys ! m = ?lk" for ys m
  proof -
    from mem_update_or [OF that(1,2), of ?lk'] show ?thesis
    proof
      assume "l \<in> set (ys[m := ?lk'])"
      then show ?thesis using same_ends_refl by blast
    next
      assume "l = ys ! m"
      with that(3) have "same_ends ?lk' l" by simp
      moreover have "?lk' \<in> set (ys[m := ?lk'])"
        using that(2) by (rule set_update_memI)
      ultimately show ?thesis by blast
    qed
  qed
  show ?thesis
  proof (cases "first_index (\<lambda>link2. t_link ?lk = d_link link2) lnks")
    case None
    then have "fst (dedup_step i n lnks) = lnks[i := ?lk']"
      by (simp add: dedup_step_def Let_def)
    with upd [OF l i] show ?thesis by simp
  next
    case (Some j)
    from first_index_Some [OF Some] have j: "j < length lnks" and pj: "points_to (lnks ! j) ?lk"
      by (simp_all add: t_link_points_to)
    show ?thesis
    proof (cases "first_index (\<lambda>x. x = lnks ! j) lnks")
      case None
      with Some have "fst (dedup_step i n lnks) = lnks[i := ?lk']"
        by (simp add: dedup_step_def Let_def)
      with upd [OF l i] show ?thesis by simp
    next
      case k: (Some k)
      from first_index_Some [OF k] have kl: "k < length lnks" and ke: "lnks ! k = lnks ! j"
        by simp_all
      from ke pj np have ne: "l \<noteq> lnks ! k" by auto
      from mem_delete_at [OF l kl ne] have ld: "l \<in> set (delete_at k lnks)" .
      consider "k < i" | "k = i" | "i < k" by linarith
      then show ?thesis
      proof cases
        case 1
        then have new: "fst (dedup_step i n lnks) = (delete_at k lnks)[i - 1 := ?lk']"
          using Some k by (simp add: dedup_step_def Let_def)
        have m: "i - 1 < length (delete_at k lnks)"
          using 1 i kl by (simp add: length_delete_at)
        have "delete_at k lnks ! (i - 1) = ?lk"
          using 1 i kl by (simp add: nth_delete_at)
        from upd [OF ld m this] new show ?thesis by simp
      next
        case 2
        then have "fst (dedup_step i n lnks) = delete_at k lnks"
          using Some k by (simp add: dedup_step_def Let_def)
        with ld have "l \<in> set (fst (dedup_step i n lnks))" by simp
        then show ?thesis using same_ends_refl by blast
      next
        case 3
        then have new: "fst (dedup_step i n lnks) = (delete_at k lnks)[i := ?lk']"
          using Some k by (simp add: dedup_step_def Let_def)
        have m: "i < length (delete_at k lnks)"
          using 3 i kl by (simp add: length_delete_at)
        have "delete_at k lnks ! i = ?lk"
          using 3 i kl by (simp add: nth_delete_at)
        from upd [OF ld m this] new show ?thesis by simp
      qed
    qed
  qed
qed

lemma port_id_by_name_Some:
  "port_id_by_name nm ps = Some p \<Longrightarrow> \<exists>q\<in>set ps. p_id q = p \<and> p_name q = nm"
  by (induction ps) (auto split: if_splits)

lemma has_port_id_Cons: "has_port_id nodes n p \<Longrightarrow> has_port_id (nd # nodes) n p"
  unfolding has_port_id_def by simp

lemma convert_named_Some:
  "convert_named dn dp nodes = Inr (a, Some p) \<Longrightarrow> \<exists>n. a = Some n \<and> has_port_id nodes n p"
proof (induction nodes)
  case Nil
  then show ?case by simp
next
  case (Cons nd nodes)
  show ?case
  proof (cases "map_of (n_properties nd) ''name'' = Some (PV (S dn))")
    case True
    with Cons.prems obtain ps where ps: "n_ports nd = Some ps" "a = Some (n_id nd)"
      "port_id_by_name dp ps = Some p"
      by (auto simp: getitem_def node_ports_def split: option.splits)
    from port_id_by_name_Some [OF ps(3)] have "p \<in> p_id ` set ps" by force
    with ps show ?thesis by (auto simp: has_port_id_def)
  next
    case False
    with Cons.prems have "convert_named dn dp nodes = Inr (a, Some p)"
      by (auto simp: getitem_def split: option.splits)
    from Cons.IH [OF this] show ?thesis by (blast intro: has_port_id_Cons)
  qed
qed

lemma convert_nio_Some:
  "convert_nio dp nodes = Inr (a, Some p) \<Longrightarrow> \<exists>n. a = Some n \<and> has_port_id nodes n p"
proof (induction nodes)
  case Nil
  then show ?case by simp
next
  case (Cons nd nodes)
  show ?case
  proof (cases "n_type nd = ''Cloud''")
    case True
    with Cons.prems obtain ps where ps: "n_ports nd = Some ps" "a = Some (n_id nd)"
      "port_id_by_name dp ps = Some p"
      by (auto simp: node_ports_def split: option.splits)
    from port_id_by_name_Some [OF ps(3)] have "p \<in> p_id ` set ps" by force
    with ps show ?thesis by (auto simp: has_port_id_def)
  next
    case False
    with Cons.prems have "convert_nio dp nodes = Inr (a, Some p)"
      by simp
    from Cons.IH [OF this] show ?thesis by (blast intro: has_port_id_Cons)
  qed
qed

lemma convert_destination_Some:
  "convert_destination_to_id dn dp nodes = Inr (a, Some p) \<Longrightarrow>
     \<exists>n. a = Some n \<and> has_port_id nodes n p"
  by (auto simp: convert_destination_to_id_def dest: convert_named_Some convert_nio_Some
      split: if_splits)

lemma resolve_link_facts:
  assumes "resolve_link cat nodes s = Inr l"
  shows "source_node_id l = s_source_node_id s" "source_port_id l = s_source_port_id s"
    "l_id l = None"
    "\<exists>dp. convert_destination_to_id (dest_dev s) dp nodes =
            Inr (destination_node_id l, destination_port_id l)"
  using assms by (auto simp: resolve_link_def split: sum.splits if_splits prod.splits)

lemma resolve_links_all2:
  "resolve_links cat nodes sl = Inr ls \<Longrightarrow>
     list_all2 (\<lambda>s l. resolve_link cat nodes s = Inr l) sl ls"
  by (induction sl arbitrary: ls) (auto split: sum.splits)

lemma set_link_id_strip: "map strip_port (set_link_id i v ps) = map strip_port ps"
  by (induction ps) (auto simp: strip_port_def)

lemma connect_node_strip: "connect_node l nd = Inr nd' \<Longrightarrow> strip_node nd' = strip_node nd"
  by (auto simp: connect_node_def node_ports_def strip_node_def set_link_id_strip
      split: if_splits option.splits)

lemma add_node_connections_strip:
  "add_node_connections l nodes = Inr nodes' \<Longrightarrow> map strip_node nodes' = map strip_node nodes"
  by (induction nodes arbitrary: nodes') (auto split: sum.splits dest: connect_node_strip)

lemma dedup_loop_strip:
  "dedup_loop i n lnks nodes = Inr (final, nodes') \<Longrightarrow>
     map strip_node nodes' = map strip_node nodes"
proof (induction i n lnks nodes rule: dedup_loop.induct)
  case (1 i link_id lnks nodes)
  show ?case
  proof (cases "i < length lnks")
    case True
    with "1.prems" obtain nodes1 where
      a: "add_node_connections (snd (dedup_step i link_id lnks)) nodes = Inr nodes1" and
      r: "dedup_loop (Suc i) (link_id + 1) (fst (dedup_step i link_id lnks)) nodes1 = Inr (final, nodes')"
      by (auto simp: dedup_loop.simps [of i link_id lnks nodes] split: sum.splits)
    from "1.IH" [OF True a r] add_node_connections_strip [OF a] show ?thesis by simp
  next
    case False
    with "1.prems" show ?thesis
      by (simp add: dedup_loop.simps [of i link_id lnks nodes])
  qed
qed

lemma strip_node_eq:
  assumes "strip_node a = strip_node b"
  shows "n_id a = n_id b" "map_option (map p_id) (n_ports a) = map_option (map p_id) (n_ports b)"
proof -
  from assms have "n_id (strip_node a) = n_id (strip_node b)" by simp
  then show "n_id a = n_id b" by (simp add: strip_node_def)
  from assms have "n_ports (strip_node a) = n_ports (strip_node b)" by simp
  then have "map_option (map strip_port) (n_ports a) = map_option (map strip_port) (n_ports b)"
    by (simp add: strip_node_def)
  then have "map_option (map p_id) (map_option (map strip_port) (n_ports a)) =
             map_option (map p_id) (map_option (map strip_port) (n_ports b))"
    by simp
  moreover have "\<And>x. map_option (map p_id) (map_option (map strip_port) x) = map_option (map p_id) x"
    by (simp add: option.map_comp comp_def strip_port_def)
  ultimately show "map_option (map p_id) (n_ports a) = map_option (map p_id) (n_ports b)"
    by simp
qed

lemma has_port_id_strip:
  assumes m: "map strip_node nodes' = map strip_node nodes" and h: "has_port_id nodes n p"
  shows "has_port_id nodes' n p"
proof -
  from h obtain nd ps where nd: "nd \<in> set nodes" "n_id nd = n" "n_ports nd = Some ps"
    "p \<in> p_id ` set ps"
    by (auto simp: has_port_id_def)
  from nd(1) obtain k where k: "k < length nodes" "nodes ! k = nd"
    by (auto simp: in_set_conv_nth)
  from m have len: "length nodes' = length nodes"
    by (metis length_map)
  from m k(1) len have "strip_node (nodes' ! k) = strip_node (nodes ! k)"
    by (metis nth_map)
  from strip_node_eq [OF this] k(2) nd(2,3)
  have e: "n_id (nodes' ! k) = n" "map_option (map p_id) (n_ports (nodes' ! k)) = Some (map p_id ps)"
    by simp_all
  from e(2) obtain ps' where ps': "n_ports (nodes' ! k) = Some ps'" "map p_id ps' = map p_id ps"
    by auto
  from ps'(2) have "p_id ` set ps' = p_id ` set ps"
    by (metis set_map)
  with nd(4) ps'(1) e(1) k(1) len show ?thesis
    unfolding has_port_id_def by (metis nth_mem)
qed

lemma dedup_loop_from:
  assumes run: "dedup_loop i n ls nodes = Inr (final, nodes')"
  shows "\<forall>l\<in>set final. \<exists>g\<in>set ls. same_ends l g"
proof -
  let ?P = "\<lambda>(i::nat) lnks. \<forall>l\<in>set lnks. \<exists>g\<in>set ls. same_ends l g"
  have init: "?P i ls" using same_ends_refl by blast
  have step: "?P (Suc i) (fst (dedup_step i m lnks))" if "i < length lnks" "?P i lnks" for i m lnks
  proof
    fix l assume "l \<in> set (fst (dedup_step i m lnks))"
    with dedup_step_from [OF that(1), of m] obtain g where g: "g \<in> set lnks" "same_ends l g"
      by blast
    from that(2) g(1) obtain h where "h \<in> set ls" "same_ends g h" by blast
    with g(2) show "\<exists>g\<in>set ls. same_ends l g"
      by (blast intro: same_ends_trans)
  qed
  have "\<exists>i'. length final \<le> i' \<and> ?P i' final"
    using run init step by (rule dedup_loop_links_rule)
  then show ?thesis by blast
qed

lemma dedup_loop_keeps_unresolved:
  assumes run: "dedup_loop i n ls nodes = Inr (final, nodes')"
    and g: "g \<in> set ls" and un: "destination_port_id g = None"
  shows "\<exists>l\<in>set final. same_ends l g"
proof -
  let ?P = "\<lambda>(i::nat) lnks. \<exists>l\<in>set lnks. same_ends l g"
  have init: "?P i ls" using g same_ends_refl by blast
  have step: "?P (Suc i) (fst (dedup_step i m lnks))" if "i < length lnks" "?P i lnks" for i m lnks
  proof -
    from that(2) obtain l where l: "l \<in> set lnks" "same_ends l g" by blast
    from l(2) un have "destination_port_id l = None"
      by (simp add: same_ends_def destination_end_def)
    then have "\<not> points_to l (lnks ! i)"
      by (simp add: points_to_def destination_end_def)
    from dedup_step_keeps [OF that(1) l(1) this, of m] l(2) show ?thesis
      by (blast intro: same_ends_trans)
  qed
  have "\<exists>i'. length final \<le> i' \<and> ?P i' final"
    using run init step by (rule dedup_loop_links_rule)
  then show ?thesis by blast
qed

text \<open>
  What holds of the finalized list: every link has the source ids of one of the symbolic
  links; a link whose destination port id is not null has a destination node id, and the two
  are the ids of a node and of one of its ports; and on consistent declarations no two links
  of the list join the same two ends.
\<close>

theorem finalized_links_invariant:
  assumes res: "resolve_links cat nodes self_links = Inr ls"
    and gen: "generate_links cat self_links nodes = Inr (final, nodes')"
  shows "(\<forall>l\<in>set final. \<exists>s\<in>set self_links.
            source_node_id l = s_source_node_id s \<and> source_port_id l = s_source_port_id s) \<and>
         (\<forall>l\<in>set final. \<forall>p. destination_port_id l = Some p \<longrightarrow>
            (\<exists>n. destination_node_id l = Some n \<and> has_port_id nodes' n p)) \<and>
         (consistent ls \<longrightarrow>
            (\<forall>i<length final. \<forall>j<length final. i \<noteq> j \<longrightarrow> \<not> same_cable (final ! i) (final ! j)))"
proof (intro conjI ballI allI impI)
  from generate_links_Inr [OF res gen] have run: "dedup_loop 0 1 ls nodes = Inr (final, nodes')" .
  have orig: "\<exists>g s. g \<in> set ls \<and> s \<in> set self_links \<and> same_ends l g \<and>
                    resolve_link cat nodes s = Inr g" if "l \<in> set final" for l
  proof -
    from dedup_loop_from [OF run] that obtain g where g: "g \<in> set ls" "same_ends l g" by blast
    from g(1) obtain k where k: "k < length ls" "ls ! k = g" by (auto simp: in_set_conv_nth)
    from resolve_links_all2 [OF res] k have "k < length self_links"
      "resolve_link cat nodes (self_links ! k) = Inr g"
      by (auto simp: list_all2_conv_all_nth)
    with g show ?thesis by (metis nth_mem)
  qed
  {
    fix l assume "l \<in> set final"
    from orig [OF this] obtain g s where gs: "s \<in> set self_links" "same_ends l g"
      "resolve_link cat nodes s = Inr g" by blast
    from resolve_link_facts(1,2) [OF gs(3)] gs(2)
    have "source_node_id l = s_source_node_id s \<and> source_port_id l = s_source_port_id s"
      by (simp add: same_ends_def source_end_def)
    with gs(1) show "\<exists>s\<in>set self_links.
        source_node_id l = s_source_node_id s \<and> source_port_id l = s_source_port_id s"
      by blast
  next
    fix l p assume l: "l \<in> set final" and p: "destination_port_id l = Some p"
    from orig [OF l] obtain g s where gs: "same_ends l g" "resolve_link cat nodes s = Inr g"
      by blast
    from gs(1) have de: "destination_node_id g = destination_node_id l"
      "destination_port_id g = destination_port_id l"
      by (simp_all add: same_ends_def destination_end_def)
    from resolve_link_facts(4) [OF gs(2)] de p obtain dp where
      "convert_destination_to_id (dest_dev s) dp nodes = Inr (destination_node_id l, Some p)"
      by auto
    from convert_destination_Some [OF this] obtain n where
      n: "destination_node_id l = Some n" "has_port_id nodes n p" by blast
    from has_port_id_strip [OF dedup_loop_strip [OF run] n(2)] n(1)
    show "\<exists>n. destination_node_id l = Some n \<and> has_port_id nodes' n p" by blast
  next
    fix i j assume c: "consistent ls" and i: "i < length final" and j: "j < length final"
      and ne: "i \<noteq> j"
    from dedup_loop_final [OF run c] have cf: "consistent final"
      and np: "\<forall>x\<in>set final. \<forall>y\<in>set final. \<not> points_to y x"
      by (simp_all add: dedup_inv_def)
    from cf have "distinct (map source_end final)" by (simp add: consistent_def)
    with i j ne have "source_end (final ! i) \<noteq> source_end (final ! j)"
      by (metis length_map nth_eq_iff_index_eq nth_map)
    moreover from np i j have "\<not> points_to (final ! i) (final ! j)"
      by (metis nth_mem)
    ultimately show "\<not> same_cable (final ! i) (final ! j)"
      by (auto simp: same_cable_def same_ends_def)
  }
qed

lemma switched_pair_generate:
  "generate_nodes sample_catalog sample_hypervisors switched_pair init_state =
     Inr (switched_pair_nodes, \<lparr>port_id = 7, links = switched_pair_links, configs = []\<rparr>)"
  by code_simp

theorem finalized_links_invariant_witness:
  "resolve_links sample_catalog switched_pair_nodes switched_pair_links =
     Inr [mk_link 1 1 (Some 3) (Some 5) None, mk_link 2 3 (Some 3) (Some 6) None,
          mk_link 3 5 (Some 1) (Some 1) None, mk_link 3 6 (Some 2) (Some 3) None] \<and>
   map_sum id fst (generate_links sample_catalog switched_pair_links switched_pair_nodes) =
     Inr [mk_link 1 1 (Some 3) (Some 5) (Some 1), mk_link 2 3 (Some 3) (Some 6) (Some 2)] \<and>
   consistent [mk_link 1 1 (Some 3) (Some 5) None, mk_link 2 3 (Some 3) (Some 6) None,
               mk_link 3 5 (Some 1) (Some 1) None, mk_link 3 6 (Some 2) (Some 3) None] \<and>
   list_all (\<lambda>l. \<exists>s\<in>set switched_pair_links.
                    source_node_id l = s_source_node_id s \<and>
                    source_port_id l = s_source_port_id s)
     [mk_link 1 1 (Some 3) (Some 5) (Some 1), mk_link 2 3 (Some 3) (Some 6) (Some 2)] \<and>
   has_port_id (snd (projr (generate_links sample_catalog switched_pair_links
                              switched_pair_nodes))) 3 5 \<and>
   has_port_id (snd (projr (generate_links sample_catalog switched_pair_links
                              switched_pair_nodes))) 3 6 \<and>
   \<not> same_cable (mk_link 1 1 (Some 3) (Some 5) (Some 1))
                (mk_link 2 3 (Some 3) (Some 6) (Some 2))"
proof -
  let ?G = "generate_links sample_catalog switched_pair_links switched_pair_nodes"
  let ?ls = "[mk_link 1 1 (Some 3) (Some 5) None, mk_link 2 3 (Some 3) (Some 6) None,
              mk_link 3 5 (Some 1) (Some 1) None, mk_link 3 6 (Some 2) (Some 3) None]"
  let ?a = "mk_link 1 1 (Some 3) (Some 5) (Some 1)"
  let ?b = "mk_link 2 3 (Some 3) (Some 6) (Some 2)"
  have res: "resolve_links sample_catalog switched_pair_nodes switched_pair_links = Inr ?ls"
    by code_simp
  have fin: "map_sum id fst ?G = Inr [?a, ?b]"
    by code_simp
  then have gen: "?G = Inr ([?a, ?b], snd (projr ?G))"
    by (cases ?G) auto
  have cons: "consistent ?ls" by code_simp
  have da: "destination_port_id ?a = Some 5" "destination_node_id ?a = Some 3"
    and db: "destination_port_id ?b = Some 6" "destination_node_id ?b = Some 3"
    by (simp_all add: mk_link_def)
  note inv = finalized_links_invariant [OF res gen]
  from inv have src: "\<forall>l\<in>set [?a, ?b]. \<exists>s\<in>set switched_pair_links.
      source_node_id l = s_source_node_id s \<and> source_port_id l = s_source_port_id s"
    by (rule conjunct1)
  from inv have dst: "\<forall>l\<in>set [?a, ?b]. \<forall>p. destination_port_id l = Some p \<longrightarrow>
      (\<exists>n. destination_node_id l = Some n \<and> has_port_id (snd (projr ?G)) n p)"
    by (elim conjE)
  from inv cons have uniq: "\<forall>i<length [?a, ?b]. \<forall>j<length [?a, ?b]. i \<noteq> j \<longrightarrow>
      \<not> same_cable ([?a, ?b] ! i) ([?a, ?b] ! j)"
    by (elim conjE) (erule mp)
  from src have c1: "list_all (\<lambda>l. \<exists>s\<in>set switched_pair_links.
      source_node_id l = s_source_node_id s \<and> source_port_id l = s_source_port_id s) [?a, ?b]"
    by (simp only: list_all_iff)
  from dst da have c2: "has_port_id (snd (projr ?G)) 3 5"
    by (metis list.set_intros(1) option.inject)
  from dst db have c3: "has_port_id (snd (projr ?G)) 3 6"
    by (metis list.set_intros(1,2) option.inject)
  from uniq [rule_format, of 0 1] have c4: "\<not> same_cable ?a ?b" by simp
  from res fin cons c1 c2 c3 c4 show ?thesis by (intro conjI)
qed

text \<open>
  A reference that cannot be resolved is kept: the router declares
  \<open>f1/0 = R9 f0/0\<close>, has no port \<open>FastEthernet1/0\<close> and knows no \<open>R9\<close>. The finalized
  link has source port 0, which is the id of no port (the ports of node 1 are 1 and 2), and
  no destination.
\<close>

theorem dangling_link_emitted:
  "map_sum id (\<lambda>(ls, nodes). (ls, port_ids nodes))
     (convert sample_catalog sample_hypervisors dangling_router) =
     Inr ([mk_link 1 0 None None (Some 1)], [(1, Some [1, 2])])"
  by code_simp

text \<open>
  Claim C3 (every end of a finalized link is a port of a node, and no two finalized links have
  the same unordered pair of ends). With the three routers above, where R2 and R3 declare their
  cable from both sides and R1 also names port \<open>f0/0\<close> of R2, the second loop of
  \<open>generate_links\<close> removes the link of R1 instead of the mirror and never visits the
  link of R3. The finalized list is 2:3 to 3:5 (id 2) and 3:5 to 2:3 (no id): all four ends are
  ports of the nodes, and the two links have the same unordered pair of ends.
\<close>

theorem endpoint_pair_emitted_twice:
  "map_sum id (\<lambda>(ls, nodes). (map source_end ls, map destination_end ls, map l_id ls, port_ids nodes))
     (convert sample_catalog sample_hypervisors three_routers) =
     Inr ([(2, 3), (3, 5)], [(Some 3, Some 5), (Some 2, Some 3)], [Some 2, None],
          [(1, Some [1, 2]), (2, Some [3, 4]), (3, Some [5, 6])]) \<and>
   same_cable (mk_link 2 3 (Some 3) (Some 5) (Some 2)) (mk_link 3 5 (Some 2) (Some 3) None)"
  by code_simp

subsection \<open>Destinations that cannot be resolved\<close>

lemma convert_named_unknown:
  "nodes_complete nodes \<Longrightarrow> \<forall>nd\<in>set nodes. \<not> node_named dn nd \<Longrightarrow>
     convert_named dn dp nodes = Inr (None, None)"
  by (induction nodes)
     (auto simp: nodes_complete_def node_named_def getitem_def split: option.splits)

lemma convert_named_found:
  "nodes_complete nodes \<Longrightarrow> find (node_named dn) nodes = Some nd \<Longrightarrow>
     \<exists>ps. n_ports nd = Some ps \<and>
          convert_named dn dp nodes = Inr (Some (n_id nd), port_id_by_name dp ps)"
  by (induction nodes)
     (auto simp: nodes_complete_def node_named_def getitem_def node_ports_def
           split: option.splits if_splits)

lemma convert_nio_total:
  "nodes_complete nodes \<Longrightarrow> \<exists>r. convert_nio dp nodes = Inr r"
  by (induction nodes)
     (auto simp: nodes_complete_def node_ports_def split: option.splits)

lemma convert_nio_None: "convert_nio dp nodes = Inr (a, None) \<Longrightarrow> a = None"
  by (induction nodes) (auto simp: node_ports_def split: option.splits if_splits)

lemma convert_named_total:
  "nodes_complete nodes \<Longrightarrow> \<exists>r. convert_named dn dp nodes = Inr r"
  by (induction nodes)
     (auto simp: nodes_complete_def getitem_def node_ports_def split: option.splits)

lemma convert_destination_total:
  assumes "nodes_complete nodes"
  shows "\<exists>r. convert_destination_to_id dn dp nodes = Inr r"
proof (cases "dn = ''NIO''")
  case True
  from convert_nio_total [OF assms, of dp] obtain r where "convert_nio dp nodes = Inr r" ..
  with True show ?thesis by (simp add: convert_destination_to_id_def)
next
  case False
  from convert_named_total [OF assms, of dn dp] obtain r where
    "convert_named dn dp nodes = Inr r" ..
  with False show ?thesis by (simp add: convert_destination_to_id_def)
qed

lemma interface_re_search_Nil: "\<not> interface_re_search []"
  by (simp add: interface_re_search_def list_ex_iff digits_slash_digits_def)

lemma expand_name_total:
  assumes "interface_re_search nm" "map_of (PORT_TYPES cat) (upper [hd nm]) \<noteq> None"
  shows "\<exists>r. expand_name cat nm = Inr r"
proof (cases nm)
  case Nil
  with assms(1) interface_re_search_Nil show ?thesis by simp
next
  case (Cons c cs)
  with assms(2) show ?thesis
    by (auto simp: expand_name_def getitem_def)
qed

lemma resolve_link_total:
  assumes "nodes_complete nodes" "expandable cat s"
  shows "\<exists>l. resolve_link cat nodes s = Inr l"
proof -
  have "\<exists>dp. (if interface_re_search (dest_port s) then expand_name cat (dest_port s)
            else Inr (dest_port s)) = Inr dp"
  proof (cases "interface_re_search (dest_port s)")
    case True
    with assms(2) have "map_of (PORT_TYPES cat) (upper [hd (dest_port s)]) \<noteq> None"
      by (simp add: expandable_def)
    from expand_name_total [OF True this] True show ?thesis by simp
  next
    case False
    then show ?thesis by simp
  qed
  then obtain dp where dp: "(if interface_re_search (dest_port s)
            then expand_name cat (dest_port s) else Inr (dest_port s)) = Inr dp" ..
  from convert_destination_total [OF assms(1), of "dest_dev s" dp] obtain a b where
    "convert_destination_to_id (dest_dev s) dp nodes = Inr (a, b)" by force
  with dp show ?thesis
    by (simp add: resolve_link_def)
qed

lemma resolve_links_total:
  "nodes_complete nodes \<Longrightarrow> \<forall>s\<in>set sl. expandable cat s \<Longrightarrow>
     \<exists>ls. resolve_links cat nodes sl = Inr ls"
proof (induction sl)
  case Nil
  show ?case by simp
next
  case (Cons s sl)
  from resolve_link_total [OF Cons.prems(1), of cat s] Cons.prems(2)
  obtain l where "resolve_link cat nodes s = Inr l" by auto
  moreover from Cons.IH Cons.prems obtain ls where "resolve_links cat nodes sl = Inr ls"
    by auto
  ultimately show ?case by simp
qed

lemma connect_node_total:
  "n_ports nd \<noteq> None \<Longrightarrow> \<exists>nd'. connect_node l nd = Inr nd' \<and> n_ports nd' \<noteq> None"
  by (auto simp: connect_node_def node_ports_def)

lemma add_node_connections_total:
  "\<forall>nd\<in>set nodes. n_ports nd \<noteq> None \<Longrightarrow>
     \<exists>nodes'. add_node_connections l nodes = Inr nodes' \<and> (\<forall>nd\<in>set nodes'. n_ports nd \<noteq> None)"
proof (induction nodes)
  case Nil
  show ?case by simp
next
  case (Cons nd nodes)
  from connect_node_total [of nd l] Cons.prems obtain nd' where
    "connect_node l nd = Inr nd'" "n_ports nd' \<noteq> None" by auto
  moreover from Cons.IH Cons.prems obtain nodes' where
    "add_node_connections l nodes = Inr nodes'" "\<forall>nd\<in>set nodes'. n_ports nd \<noteq> None" by auto
  ultimately show ?case by simp
qed

lemma dedup_loop_total:
  "\<forall>nd\<in>set nodes. n_ports nd \<noteq> None \<Longrightarrow> \<exists>r. dedup_loop i n lnks nodes = Inr r"
proof (induction i n lnks nodes rule: dedup_loop.induct)
  case (1 i link_id lnks nodes)
  show ?case
  proof (cases "i < length lnks")
    case True
    from add_node_connections_total [OF "1.prems", of "snd (dedup_step i link_id lnks)"]
    obtain nodes1 where a: "add_node_connections (snd (dedup_step i link_id lnks)) nodes = Inr nodes1"
      and p: "\<forall>nd\<in>set nodes1. n_ports nd \<noteq> None" by blast
    from "1.IH" [OF True a p] obtain r where
      "dedup_loop (Suc i) (link_id + 1) (fst (dedup_step i link_id lnks)) nodes1 = Inr r" ..
    with True a show ?thesis
      by (simp add: dedup_loop.simps [of i link_id lnks nodes])
  next
    case False
    then show ?thesis
      by (simp add: dedup_loop.simps [of i link_id lnks nodes])
  qed
qed

text \<open>
  Destinations over nodes that all have a name and a port list, when the port table has the
  letter of every destination that is written as an interface: \<open>generate_links\<close> raises
  nothing. A destination device that is not \<open>NIO\<close> and names no node gives the ids
  \<open>(None, None)\<close>; one that names a node gives that node's id; an \<open>NIO\<close>
  destination with a null port id has a null node id; and every link whose destination port id
  is null is in the list that is returned.
\<close>

theorem unresolved_destination_soft:
  assumes wf: "nodes_complete nodes" and ex: "\<forall>s\<in>set self_links. expandable cat s"
  shows "\<exists>ls final nodes'.
           resolve_links cat nodes self_links = Inr ls \<and>
           generate_links cat self_links nodes = Inr (final, nodes') \<and>
           length ls = length self_links \<and>
           (\<forall>k<length self_links.
              (dest_dev (self_links ! k) \<noteq> ''NIO'' \<longrightarrow>
               (\<forall>nd\<in>set nodes. \<not> node_named (dest_dev (self_links ! k)) nd) \<longrightarrow>
                 destination_end (ls ! k) = (None, None)) \<and>
              (\<forall>nd. dest_dev (self_links ! k) \<noteq> ''NIO'' \<longrightarrow>
                 find (node_named (dest_dev (self_links ! k))) nodes = Some nd \<longrightarrow>
                 destination_node_id (ls ! k) = Some (n_id nd)) \<and>
              (dest_dev (self_links ! k) = ''NIO'' \<longrightarrow> destination_port_id (ls ! k) = None \<longrightarrow>
                 destination_node_id (ls ! k) = None) \<and>
              (destination_port_id (ls ! k) = None \<longrightarrow>
                 (\<exists>l\<in>set final. same_ends l (ls ! k))))"
proof -
  from resolve_links_total [OF wf ex] obtain ls where res: "resolve_links cat nodes self_links = Inr ls" ..
  from wf have "\<forall>nd\<in>set nodes. n_ports nd \<noteq> None" by (simp add: nodes_complete_def)
  from dedup_loop_total [OF this, of 0 1 ls] obtain final nodes' where
    run: "dedup_loop 0 1 ls nodes = Inr (final, nodes')" by force
  with res have gen: "generate_links cat self_links nodes = Inr (final, nodes')"
    by (simp add: generate_links_def)
  from resolve_links_all2 [OF res] have len: "length ls = length self_links"
    and each: "\<And>k. k < length self_links \<Longrightarrow> resolve_link cat nodes (self_links ! k) = Inr (ls ! k)"
    by (auto simp: list_all2_conv_all_nth)
  have "(dest_dev (self_links ! k) \<noteq> ''NIO'' \<longrightarrow>
           (\<forall>nd\<in>set nodes. \<not> node_named (dest_dev (self_links ! k)) nd) \<longrightarrow>
           destination_end (ls ! k) = (None, None)) \<and>
        (\<forall>nd. dest_dev (self_links ! k) \<noteq> ''NIO'' \<longrightarrow>
           find (node_named (dest_dev (self_links ! k))) nodes = Some nd \<longrightarrow>
           destination_node_id (ls ! k) = Some (n_id nd)) \<and>
        (dest_dev (self_links ! k) = ''NIO'' \<longrightarrow> destination_port_id (ls ! k) = None \<longrightarrow>
           destination_node_id (ls ! k) = None) \<and>
        (destination_port_id (ls ! k) = None \<longrightarrow> (\<exists>l\<in>set final. same_ends l (ls ! k)))"
    if k: "k < length self_links" for k
  proof -
    let ?s = "self_links ! k"
    from resolve_link_facts(4) [OF each [OF k]] obtain dp where
      cv: "convert_destination_to_id (dest_dev ?s) dp nodes =
           Inr (destination_node_id (ls ! k), destination_port_id (ls ! k))" ..
    have a: "destination_end (ls ! k) = (None, None)"
      if "dest_dev ?s \<noteq> ''NIO''" "\<forall>nd\<in>set nodes. \<not> node_named (dest_dev ?s) nd"
      using cv that convert_named_unknown [OF wf that(2), of dp]
      by (simp add: convert_destination_to_id_def destination_end_def)
    have b: "destination_node_id (ls ! k) = Some (n_id nd)"
      if "dest_dev ?s \<noteq> ''NIO''" "find (node_named (dest_dev ?s)) nodes = Some nd" for nd
      using cv that convert_named_found [OF wf that(2), of dp]
      by (auto simp: convert_destination_to_id_def)
    have c: "destination_node_id (ls ! k) = None"
      if "dest_dev ?s = ''NIO''" "destination_port_id (ls ! k) = None"
      using cv that convert_nio_None [of dp nodes "destination_node_id (ls ! k)"]
      by (simp add: convert_destination_to_id_def)
    have d: "\<exists>l\<in>set final. same_ends l (ls ! k)" if "destination_port_id (ls ! k) = None"
    proof -
      from k len have "ls ! k \<in> set ls" by simp
      from dedup_loop_keeps_unresolved [OF run this that] show ?thesis .
    qed
    from a b c d show ?thesis by blast
  qed
  with res gen len show ?thesis by blast
qed

theorem unresolved_destination_soft_witness:
  "nodes_complete two_routers_nodes \<and>
   list_all (expandable sample_catalog) unresolved_links \<and>
   map_sum id fst (generate_links sample_catalog unresolved_links two_routers_nodes) =
     Inr [mk_link 1 1 None None (Some 1), mk_link 2 3 (Some 1) None (Some 2)] \<and>
   (\<exists>ls final nodes'.
      resolve_links sample_catalog two_routers_nodes unresolved_links = Inr ls \<and>
      generate_links sample_catalog unresolved_links two_routers_nodes = Inr (final, nodes') \<and>
      length ls = length unresolved_links \<and>
      (\<forall>k<length unresolved_links.
         (dest_dev (unresolved_links ! k) \<noteq> ''NIO'' \<longrightarrow>
          (\<forall>nd\<in>set two_routers_nodes. \<not> node_named (dest_dev (unresolved_links ! k)) nd) \<longrightarrow>
            destination_end (ls ! k) = (None, None)) \<and>
         (\<forall>nd. dest_dev (unresolved_links ! k) \<noteq> ''NIO'' \<longrightarrow>
            find (node_named (dest_dev (unresolved_links ! k))) two_routers_nodes = Some nd \<longrightarrow>
            destination_node_id (ls ! k) = Some (n_id nd)) \<and>
         (dest_dev (unresolved_links ! k) = ''NIO'' \<longrightarrow> destination_port_id (ls ! k) = None \<longrightarrow>
            destination_node_id (ls ! k) = None) \<and>
         (destination_port_id (ls ! k) = None \<longrightarrow>
            (\<exists>l\<in>set final. same_ends l (ls ! k)))))"
proof -
  have wf: "nodes_complete two_routers_nodes" by code_simp
  have ex: "list_all (expandable sample_catalog) unresolved_links" by code_simp
  then have ex': "\<forall>s\<in>set unresolved_links. expandable sample_catalog s"
    by (simp only: list_all_iff)
  have fin: "map_sum id fst (generate_links sample_catalog unresolved_links two_routers_nodes) =
     Inr [mk_link 1 1 None None (Some 1), mk_link 2 3 (Some 1) None (Some 2)]"
    by code_simp
  from unresolved_destination_soft [OF wf ex'] wf ex fin show ?thesis
    by (intro conjI)
qed

text \<open>
  Where the device is found and the port is not: \<open>R1\<close> declares
  \<open>f0/0 = R2 f5/0\<close>, \<open>R2\<close> has no port \<open>FastEthernet5/0\<close>, and the link is emitted with
  the destination node id 2, not null, beside the null port id.
\<close>

theorem unmatched_port_keeps_node_id:
  "map_sum id fst (convert sample_catalog sample_hypervisors unknown_port) =
     Inr [mk_link 1 1 (Some 2) None (Some 1)]"
  by code_simp

text \<open>
  Claim C8 (a destination that cannot be matched gives null ids, the link is still emitted, and
  nothing is raised). \<open>convert_destination_to_id\<close> reads \<open>node['ports']\<close> of the
  node that has the destination's name, and \<open>generate_nodes\<close> gives that key to routers,
  Ethernet switches and clouds only. The router \<open>R1\<close> declares
  \<open>f0/0 = QEMU1 e0\<close>: the nodes are built (the QEMU host without a port list, the router
  with the ports 1 and 2) and the symbolic link is recorded, but finalization, instead of
  emitting the link with a null port id, raises \<open>KeyError\<close> for \<open>'ports'\<close> and no
  link list is returned.
\<close>

theorem destination_without_ports_raises:
  "map_sum id (\<lambda>(nodes, st). (port_ids nodes, links st))
     (generate_nodes sample_catalog sample_hypervisors router_to_qemu init_state) =
     Inr ([(2, None), (1, Some [1, 2])], [calc_link 1 1 (''QEMU1'', ''e0'')]) \<and>
   convert sample_catalog sample_hypervisors router_to_qemu = Inl (KeyError ''ports'')"
  by code_simp

subsection \<open>Back-annotation of ports and expansion of interface names\<close>

text \<open>
  Link finalization changes nothing of a node but the link references of its ports.
\<close>

lemma generate_links_frame:
  assumes "generate_links cat self_links nodes = Inr (final, nodes')"
  shows "map strip_node nodes' = map strip_node nodes"
  using assms
  by (auto simp: generate_links_def split: sum.splits dest: dedup_loop_strip)

text \<open>
  Claim C10 (both endpoint ports of a finalized link receive its id; nothing else of a port is
  changed). \<open>add_node_connections\<close> tests the source and the destination of a link
  in one \<open>if/elif\<close> per node, so when both ends are on the same node only the source
  port is annotated. For a router whose \<open>f0/0\<close> is cabled to its own \<open>f0/1\<close>
  the finalized link 1 joins ports 1 and 2 of node 1 with a resolved destination, port 1 refers back
  to link 1 and port 2 to nothing. The frame part of the claim holds: see
  \<open>generate_links_frame\<close>.
\<close>

theorem same_node_destination_not_annotated:
  "map_sum id (\<lambda>(ls, nodes). (ls, link_refs nodes))
     (convert sample_catalog sample_hypervisors looped_router) =
     Inr ([mk_link 1 1 (Some 1) (Some 2) (Some 1)], [(1, Some [(1, Some 1), (2, None)])])"
  by code_simp

lemma str_replace_absent: "c \<notin> set s \<Longrightarrow> str_replace [c] new s = s"
proof (induction s)
  case Nil
  show ?case by (simp add: str_replace.simps)
next
  case (Cons x s)
  then show ?case
    by (simp add: str_replace.simps [of "[c]" new "x # s"])
qed

text \<open>
  A key made of one letter known to the port table and a rest without that letter is expanded
  to the long form followed by the rest.
\<close>

lemma expand_name_one_letter:
  assumes "map_of (PORT_TYPES cat) (upper [c]) = Some long" "c \<notin> set rest"
  shows "expand_name cat (c # rest) = Inr (long @ rest)"
  using assms
  by (simp add: expand_name_def getitem_def str_replace.simps [of "[c]" long "c # rest"]
      str_replace_absent)

text \<open>
  Claim C5 (the short prefix of a router interface key is expanded to its long form and the source
  port is the port of that name). \<open>calc_router_links\<close> takes the first character of
  the key as the prefix, although the interface pattern accepts the two-letter prefixes
  \<open>gi\<close>, \<open>fa\<close>, \<open>at\<close>, \<open>se\<close>, \<open>et\<close>,
  \<open>po\<close>. The key \<open>fa0/0\<close> matches the pattern, is expanded to
  \<open>FastEtherneta0/0\<close>, and the link gets source port 0 although the node has the port
  \<open>FastEthernet0/0\<close> with id 1; the key \<open>f0/0\<close> on the same node gives
  source port 1. For one-letter prefixes the expansion is right: see
  \<open>expand_name_one_letter\<close>.
\<close>

theorem two_letter_prefix_not_expanded:
  "interface_re_search ''fa0/0'' \<and>
   expand_name sample_catalog ''fa0/0'' = Inr ''FastEtherneta0/0'' \<and>
   calc_router_links sample_catalog (''fa0/0'', S ''R2 f0/0'') 1
       [mk_port ''FastEthernet0/0'' 1 0 (SlotInt 0), mk_port ''FastEthernet0/1'' 2 1 (SlotInt 0)] =
     Inr (calc_link 1 0 (''R2'', ''f0/0'')) \<and>
   calc_router_links sample_catalog (''f0/0'', S ''R2 f0/0'') 1
       [mk_port ''FastEthernet0/0'' 1 0 (SlotInt 0), mk_port ''FastEthernet0/1'' 2 1 (SlotInt 0)] =
     Inr (calc_link 1 1 (''R2'', ''f0/0''))"
  by code_simp

subsection \<open>Default ports of the 7200 and the 3660\<close>

text \<open>
  The loop over the keys of a router: what it reads from the hypervisor configuration, which
  keys it writes into the property bag, and that it creates no port.
\<close>

lemma getitem_Inr: "getitem d k = Inr v \<longleftrightarrow> map_of d k = Some v"
  by (simp add: getitem_def split: option.splits)

lemma keys_setitem: "fst ` set (setitem d k v) = insert k (fst ` set d)"
  by (auto simp: setitem_def image_iff)

lemma keys_copy_if_present: "fst ` set (copy_if_present hv k d) \<subseteq> insert k (fst ` set d)"
  by (simp add: copy_if_present_def keys_setitem split: option.splits) blast

lemma hv_item_Inr:
  assumes "hv_item hyp v ls = Inr ls'"
  shows "\<exists>h hv. v = I h \<and> map_of hyp h = Some hv \<and>
           ls_npe ls' = (case map_of hv ''npe'' of None \<Rightarrow> ls_npe ls | Some n \<Rightarrow> Some n) \<and>
           ls_chassis ls' = (case map_of hv ''chassis'' of None \<Rightarrow> ls_chassis ls | Some c \<Rightarrow> c) \<and>
           ls_ports ls' = ls_ports ls \<and> ls_conv ls' = ls_conv ls \<and>
           ls_props ls' = copy_if_present hv ''ram'' (copy_if_present hv ''idlepc''
                            (setitem (ls_props ls) ''image'' (PV (S (basename (case map_of hv ''image'' of Some (S i) \<Rightarrow> i | _ \<Rightarrow> []))))))"
  using assms
  by (auto simp: hv_item_def getitem_def split: val.splits option.splits sum.splits)

lemma hv_item_keys:
  assumes "hv_item hyp v ls = Inr ls'"
  shows "fst ` set (ls_props ls') \<subseteq> fst ` set (ls_props ls) \<union> {''image'', ''idlepc'', ''ram''}"
proof -
  from hv_item_Inr [OF assms] obtain hv img where
    "ls_props ls' = copy_if_present hv ''ram'' (copy_if_present hv ''idlepc''
                            (setitem (ls_props ls) ''image'' img))"
    by blast
  with keys_copy_if_present [of hv "''ram''" "copy_if_present hv ''idlepc'' (setitem (ls_props ls) ''image'' img)"]
    keys_copy_if_present [of hv "''idlepc''" "setitem (ls_props ls) ''image'' img"]
    keys_setitem [of "ls_props ls" "''image''" img]
  show ?thesis by auto
qed

lemma item_step_other:
  assumes "item_step hyp dtype model nid item v ls = Inr ls'" "item \<noteq> ''hv_id''"
  shows "ls_npe ls' = ls_npe ls \<and> ls_chassis ls' = ls_chassis ls"
  using assms
  by (auto simp: item_step_def ethsw_item_def cnfg_item_def Let_def
      split: if_splits sum.splits option.splits prod.splits)

lemma item_step_no_ports:
  assumes "item_step hyp dtype model nid item v ls = Inr ls'" "ls_ports ls = None"
  shows "ls_ports ls' = None \<and> port_id (ls_conv ls') = port_id (ls_conv ls)"
proof (cases "item = ''hv_id'' \<and> dtype = S ''Router''")
  case True
  with assms(1) have "hv_item hyp v ls = Inr ls'" by (simp add: item_step_def)
  from hv_item_Inr [OF this] assms(2) show ?thesis by auto
next
  case False
  with assms show ?thesis
    by (auto simp: item_step_def ethsw_item_def cnfg_item_def Let_def
        split: if_splits sum.splits option.splits prod.splits)
qed

lemma item_step_props:
  assumes "item_step hyp dtype model nid item v ls = Inr ls'"
    and "\<not> (item = ''hv_id'' \<and> dtype = S ''Router'')"
  shows "ls_props ls' = ls_props ls \<or> ls_props ls' = setitem (ls_props ls) item (PV v) \<or>
         (\<exists>c. ls_props ls' = setitem (ls_props ls) ''startup_config'' c)"
  using assms
  by (auto simp: item_step_def ethsw_item_def cnfg_item_def Let_def
      split: if_splits sum.splits option.splits prod.splits)

lemma item_step_keys:
  assumes "item_step hyp dtype model nid item v ls = Inr ls'"
  shows "fst ` set (ls_props ls') \<subseteq>
           fst ` set (ls_props ls) \<union> {''image'', ''idlepc'', ''ram'', ''startup_config''} \<union> {item}"
proof (cases "item = ''hv_id'' \<and> dtype = S ''Router''")
  case True
  with assms(1) have "hv_item hyp v ls = Inr ls'" by (simp add: item_step_def)
  from hv_item_keys [OF this] show ?thesis by auto
next
  case False
  from item_step_props [OF assms False]
  consider "ls_props ls' = ls_props ls" | "ls_props ls' = setitem (ls_props ls) item (PV v)"
    | c where "ls_props ls' = setitem (ls_props ls) ''startup_config'' c"
    by blast
  then show ?thesis
  proof cases
    case 1
    then show ?thesis by auto
  next
    case 2
    then show ?thesis by (simp only: keys_setitem) blast
  next
    case 3
    then show ?thesis by (simp only: keys_setitem) blast
  qed
qed

lemma items_loop_keys:
  assumes "items_loop hyp dev dtype model nid ks ls0 = Inr ls"
  shows "fst ` set (ls_props ls) \<subseteq>
           fst ` set (ls_props ls0) \<union> {''image'', ''idlepc'', ''ram'', ''startup_config''} \<union> set ks"
  using assms
proof (induction ks arbitrary: ls0)
  case Nil
  then show ?case by auto
next
  case (Cons item ks)
  from Cons.prems obtain v ls1 where
    step: "item_step hyp dtype model nid item v ls0 = Inr ls1" and
    rest: "items_loop hyp dev dtype model nid ks ls1 = Inr ls"
    by (auto split: sum.splits)
  from Cons.IH [OF rest] item_step_keys [OF step] show ?case by auto
qed

lemma items_loop_no_ports:
  assumes "items_loop hyp dev dtype model nid ks ls0 = Inr ls" "ls_ports ls0 = None"
  shows "ls_ports ls = None \<and> port_id (ls_conv ls) = port_id (ls_conv ls0)"
  using assms
proof (induction ks arbitrary: ls0)
  case Nil
  then show ?case by auto
next
  case (Cons item ks)
  from Cons.prems obtain v ls1 where
    step: "item_step hyp dtype model nid item v ls0 = Inr ls1" and
    rest: "items_loop hyp dev dtype model nid ks ls1 = Inr ls"
    by (auto split: sum.splits)
  from item_step_no_ports [OF step Cons.prems(2)] Cons.IH [OF rest] show ?case by auto
qed

lemma items_loop_hv:
  assumes "items_loop hyp dev (S ''Router'') model nid ks ls0 = Inr ls" "distinct ks"
  shows "ls_npe ls =
           (if ''hv_id'' \<in> set ks then
              (case device_hv hyp dev of
                 None \<Rightarrow> ls_npe ls0
               | Some hv \<Rightarrow> (case map_of hv ''npe'' of None \<Rightarrow> ls_npe ls0 | Some n \<Rightarrow> Some n))
            else ls_npe ls0) \<and>
         ls_chassis ls =
           (if ''hv_id'' \<in> set ks then
              (case device_hv hyp dev of
                 None \<Rightarrow> ls_chassis ls0
               | Some hv \<Rightarrow> (case map_of hv ''chassis'' of None \<Rightarrow> ls_chassis ls0 | Some c \<Rightarrow> c))
            else ls_chassis ls0)"
  using assms
proof (induction ks arbitrary: ls0)
  case Nil
  then show ?case by auto
next
  case (Cons item ks)
  from Cons.prems obtain v ls1 where
    get: "map_of dev item = Some v" and
    step: "item_step hyp (S ''Router'') model nid item v ls0 = Inr ls1" and
    rest: "items_loop hyp dev (S ''Router'') model nid ks ls1 = Inr ls"
    by (auto simp: getitem_Inr split: sum.splits)
  from Cons.prems(2) have dk: "distinct ks" and nk: "item \<notin> set ks" by auto
  note ih = Cons.IH [OF rest dk]
  show ?case
  proof (cases "item = ''hv_id''")
    case True
    with step have "hv_item hyp v ls0 = Inr ls1" by (simp add: item_step_def)
    from hv_item_Inr [OF this] obtain h hv where
      v: "v = I h" and hv: "map_of hyp h = Some hv" and
      n1: "ls_npe ls1 = (case map_of hv ''npe'' of None \<Rightarrow> ls_npe ls0 | Some n \<Rightarrow> Some n)" and
      c1: "ls_chassis ls1 = (case map_of hv ''chassis'' of None \<Rightarrow> ls_chassis ls0 | Some c \<Rightarrow> c)"
      by blast
    from get v hv True have "device_hv hyp dev = Some hv" by (simp add: device_hv_def)
    with ih nk True n1 c1 show ?thesis by simp
  next
    case False
    from item_step_other [OF step False] ih False show ?thesis
      by (simp split: option.splits)
  qed
qed

text \<open>
  The slot number of the ports that the three port calculations create.
\<close>

lemma range_ports_slot: "p \<in> set (range_ports long sl n pid) \<Longrightarrow> p_slot_number p = Some sl"
  by (auto simp: range_ports_def mk_port_def)

lemma calc_slot_ports_slot:
  "calc_slot_ports cat a sl pid = Inr (ps, pid') \<Longrightarrow> p \<in> set ps \<Longrightarrow> p_slot_number p = Some sl"
  by (auto simp: calc_slot_ports_def
      split: propval.splits val.splits sum.splits prod.splits if_splits dest: range_ports_slot)

lemma calc_mb_ports_slot:
  "calc_mb_ports cat m ch pid = Inr (mb, pid') \<Longrightarrow> p \<in> set mb \<Longrightarrow>
     p_slot_number p = Some (SlotInt 0)"
  by (auto simp: calc_mb_ports_def
      split: val.splits sum.splits prod.splits if_splits option.splits dest: range_ports_slot)

lemma calc_slot_ports_known:
  assumes "map_of (ADAPTER_MATRIX cat) a = Some (n, t)" "0 < n" "map_of (PORT_TYPES cat) t = Some long"
  shows "calc_slot_ports cat (PV (S a)) sl pid = Inr (range_ports long sl n pid, pid + int n)"
  using assms by (simp add: calc_slot_ports_def getitem_def)

lemma slot_loop_ports:
  assumes "slot_loop cat props items ports pid = Inr (ports2, pid2)"
  shows "\<exists>extra. ports2 = ports @ extra \<and>
           (\<forall>p\<in>set extra. \<exists>item\<in>set items. startswith item ''slot'' \<and> 4 < length item \<and>
              p_slot_number p = Some (SlotStr [item ! 4]))"
  using assms
proof (induction items arbitrary: ports pid)
  case Nil
  then show ?case by simp
next
  case (Cons item items)
  show ?case
  proof (cases "startswith item ''slot''")
    case False
    with Cons.prems have "slot_loop cat props items ports pid = Inr (ports2, pid2)" by simp
    from Cons.IH [OF this] show ?thesis by auto
  next
    case True
    with Cons.prems obtain adapter ps pid' where
      len: "4 < length item" and
      cs: "calc_slot_ports cat adapter (SlotStr [item ! 4]) pid = Inr (ps, pid')" and
      rest: "slot_loop cat props items (ports @ ps) pid' = Inr (ports2, pid2)"
      by (auto split: if_splits sum.splits)
    from Cons.IH [OF rest] obtain extra where
      e: "ports2 = (ports @ ps) @ extra" and
      ex: "\<forall>p\<in>set extra. \<exists>item\<in>set items. startswith item ''slot'' \<and> 4 < length item \<and>
              p_slot_number p = Some (SlotStr [item ! 4])"
      by blast
    have "\<forall>p\<in>set (ps @ extra). \<exists>i\<in>set (item # items). startswith i ''slot'' \<and> 4 < length i \<and>
              p_slot_number p = Some (SlotStr [i ! 4])"
    proof
      fix p assume "p \<in> set (ps @ extra)"
      then consider "p \<in> set ps" | "p \<in> set extra" by auto
      then show "\<exists>i\<in>set (item # items). startswith i ''slot'' \<and> 4 < length i \<and>
              p_slot_number p = Some (SlotStr [i ! 4])"
      proof cases
        case 1
        from calc_slot_ports_slot [OF cs 1] True len show ?thesis by auto
      next
        case 2
        with ex show ?thesis by auto
      qed
    qed
    with e show ?thesis by auto
  qed
qed

lemma slot0_key:
  assumes "startswith item ''slot''" "4 < length item" "item ! 4 = CHR ''0''"
  shows "startswith item ''slot0''"
proof -
  from assms(1) obtain r where r: "item = ''slot'' @ r" by (auto simp: startswith_def prefix_def)
  with assms(2) obtain c r' where "r = c # r'" by (cases r) auto
  with r assms(3) show ?thesis by (simp add: startswith_def)
qed

lemma str_int_0: "str_int 0 = ''0''"
  by code_simp

lemma port_at_range_ports:
  assumes "0 < n"
  shows "port_at (pre @ range_ports long (SlotInt 0) n pid) (long @ ''0/0'') (SlotInt 0) 0"
proof -
  from assms have "(0::nat) \<in> set [0..<n]" by simp
  then have "mk_port (long @ str_slot (SlotInt 0) @ ''/'' @ str_int (int 0)) (pid + int 0) (int 0) (SlotInt 0)
               \<in> set (range_ports long (SlotInt 0) n pid)"
    unfolding range_ports_def set_map by (rule imageI)
  then show ?thesis
    by (auto simp: port_at_def mk_port_def str_slot_def str_int_0 intro!: bexI)
qed

text \<open>
  The node of a router, in terms of the three steps of its port computation: the motherboard
  ports for the chassis of its hypervisor configuration, the ports of the slots in the property
  bag (whose slot keys are keys of the device), and the default ports for its NPE.
\<close>

lemma generate_node_router:
  assumes gen: "generate_node cat hyp device dev st = Inr (nd, st')"
    and ty: "map_of dev ''type'' = Some (S ''Router'')"
  shows "\<exists>props m mb pid1 ports2 pid2 ports3 props3.
     (case map_of dev ''model'' of None \<Rightarrow> S [] | Some m \<Rightarrow> m) = S m \<and>
     (\<forall>k\<in>fst ` set props. startswith k ''slot'' \<longrightarrow> k \<in> fst ` set dev) \<and>
     calc_mb_ports cat (S m) (chassis_of hyp dev) (port_id st) = Inr (mb, pid1) \<and>
     slot_loop cat props (sorted_keys props) mb pid1 = Inr (ports2, pid2) \<and>
     default_ports cat (S m) (npe_of hyp dev) (chassis_of hyp dev) props ports2 pid2 =
       Inr (ports3, props3, port_id st') \<and>
     n_ports nd = Some ports3 \<and> n_properties nd = props3"
proof -
  let ?model = "case map_of dev ''model'' of None \<Rightarrow> S [] | Some m \<Rightarrow> m"
  let ?ls0 = "\<lparr>ls_props = [(''name'', PV (S device))], ls_ports = None, ls_router_id = None,
               ls_npe = None, ls_chassis = S [], ls_connections = None, ls_interfaces = [],
               ls_conv = st\<rparr>"
  from gen ty obtain nid x y ls where
    il: "items_loop hyp dev (S ''Router'') ?model nid (sorted_keys dev) ?ls0 = Inr ls" and
    rn: "router_node cat nid x y device ?model ls = Inr (nd, st')"
    by (auto simp: generate_node_def getitem_def Let_def
        split: option.splits val.splits sum.splits if_splits)
  from rn obtain m mb pid1 ports2 pid2 ports3 props3 pid3 where
    m: "?model = S m" and
    mb: "calc_mb_ports cat (S m) (ls_chassis ls) (port_id (ls_conv ls)) = Inr (mb, pid1)" and
    sl: "slot_loop cat (ls_props ls) (sorted_keys (ls_props ls)) mb pid1 = Inr (ports2, pid2)" and
    dp: "default_ports cat (S m) (ls_npe ls) (ls_chassis ls) (ls_props ls) ports2 pid2 =
           Inr (ports3, props3, pid3)" and
    nd: "n_ports nd = Some ports3" "n_properties nd = props3" and
    st': "port_id st' = pid3"
    by (auto simp: router_node_def mk_node_def split: val.splits sum.splits prod.splits)
  have dist: "distinct (sorted_keys dev)" by (simp add: sorted_keys_def)
  have hvk: "''hv_id'' \<in> set (sorted_keys dev) \<longleftrightarrow> map_of dev ''hv_id'' \<noteq> None"
    by (simp add: set_sorted_keys map_of_eq_None_iff)
  from items_loop_hv [OF il dist]
  have npe: "ls_npe ls = npe_of hyp dev" and ch: "ls_chassis ls = chassis_of hyp dev"
    by (auto simp: hvk npe_of_def chassis_of_def device_hv_def split: option.splits)
  from items_loop_no_ports [OF il] have pid: "port_id (ls_conv ls) = port_id st" by simp
  from items_loop_keys [OF il]
  have keys: "\<forall>k\<in>fst ` set (ls_props ls). startswith k ''slot'' \<longrightarrow> k \<in> fst ` set dev"
    by (auto simp: set_sorted_keys startswith_def)
  from m keys mb sl dp nd st' show ?thesis
    unfolding npe ch pid by blast
qed

text \<open>
  Claim C2. Let the catalogue hold the two default cards of the 7200, each with at least one
  port and a known interface family. The node of a router of model \<open>c7200\<close> has a port
  of the family of \<open>C7200-IO-GE-E\<close> at slot 0, position 0, when its hypervisor
  configuration carries the NPE \<open>npe-g2\<close>, and a port of the family of
  \<open>C7200-IO-2FE\<close> at slot 0, position 0, otherwise (another NPE, no NPE, or no
  hypervisor reference). Only one of the two cards is added: the ports with slot number 0 are the
  motherboard ports of the model table followed by the ports of that card, which take the last port
  ids given out for the node.
\<close>

theorem c7200_default_card:
  assumes gen: "generate_node cat hyp device dev st = Inr (nd, st')"
    and ty: "map_of dev ''type'' = Some (S ''Router'')"
    and model: "map_of dev ''model'' = Some (S ''c7200'')"
    and ge: "map_of (ADAPTER_MATRIX cat) ''C7200-IO-GE-E'' = Some (n_ge, t_ge)" "0 < n_ge"
      "map_of (PORT_TYPES cat) t_ge = Some ge_name"
    and fe: "map_of (ADAPTER_MATRIX cat) ''C7200-IO-2FE'' = Some (n_fe, t_fe)" "0 < n_fe"
      "map_of (PORT_TYPES cat) t_fe = Some fe_name"
  shows "\<exists>ports mb pid1.
     n_ports nd = Some ports \<and>
     calc_mb_ports cat (S ''c7200'') (chassis_of hyp dev) (port_id st) = Inr (mb, pid1) \<and>
     (if npe_of hyp dev = Some (S ''npe-g2'')
      then port_at ports (ge_name @ ''0/0'') (SlotInt 0) 0 \<and>
           slot0_ports ports =
             mb @ range_ports ge_name (SlotInt 0) n_ge (port_id st' - int n_ge)
      else port_at ports (fe_name @ ''0/0'') (SlotInt 0) 0 \<and>
           slot0_ports ports =
             mb @ range_ports fe_name (SlotInt 0) n_fe (port_id st' - int n_fe))"
proof -
  from generate_node_router [OF gen ty] model obtain props mb pid1 ports2 pid2 ports3 props3 where
    mb: "calc_mb_ports cat (S ''c7200'') (chassis_of hyp dev) (port_id st) = Inr (mb, pid1)" and
    sl: "slot_loop cat props (sorted_keys props) mb pid1 = Inr (ports2, pid2)" and
    dp: "default_ports cat (S ''c7200'') (npe_of hyp dev) (chassis_of hyp dev) props ports2 pid2 =
           Inr (ports3, props3, port_id st')" and
    nd: "n_ports nd = Some ports3"
    by auto
  from slot_loop_ports [OF sl] obtain extra where
    p2: "ports2 = mb @ extra" and
    ex: "\<forall>p\<in>set extra. \<exists>item\<in>set (sorted_keys props). startswith item ''slot'' \<and>
           4 < length item \<and> p_slot_number p = Some (SlotStr [item ! 4])"
    by blast
  have mb0: "filter (\<lambda>p. p_slot_number p = Some (SlotInt 0)) mb = mb"
    using calc_mb_ports_slot [OF mb] by (simp add: filter_id_conv)
  have ex0: "filter (\<lambda>p. p_slot_number p = Some (SlotInt 0)) extra = []"
    using ex by (auto simp: filter_empty_conv)
  have card0: "filter (\<lambda>p. p_slot_number p = Some (SlotInt 0)) (range_ports long (SlotInt 0) n pid) =
      range_ports long (SlotInt 0) n pid" for long n pid
    using range_ports_slot [of _ long "SlotInt 0" n pid] by (simp add: filter_id_conv)
  show ?thesis
  proof (cases "npe_of hyp dev = Some (S ''npe-g2'')")
    case True
    with dp have p3: "ports3 = ports2 @ range_ports ge_name (SlotInt 0) n_ge pid2"
      and pid: "port_id st' = pid2 + int n_ge"
      by (auto simp: default_ports_def calc_slot_ports_known [OF ge])
    from pid have pid2: "pid2 = port_id st' - int n_ge" by simp
    have "port_at ports3 (ge_name @ ''0/0'') (SlotInt 0) 0"
      unfolding p3 using ge(2) by (rule port_at_range_ports)
    moreover have "slot0_ports ports3 =
        mb @ range_ports ge_name (SlotInt 0) n_ge (port_id st' - int n_ge)"
      by (simp add: slot0_ports_def p3 p2 mb0 ex0 card0 pid2)
    ultimately show ?thesis using nd mb True by simp
  next
    case False
    with dp have p3: "ports3 = ports2 @ range_ports fe_name (SlotInt 0) n_fe pid2"
      and pid: "port_id st' = pid2 + int n_fe"
      by (auto simp: default_ports_def calc_slot_ports_known [OF fe])
    from pid have pid2: "pid2 = port_id st' - int n_fe" by simp
    have "port_at ports3 (fe_name @ ''0/0'') (SlotInt 0) 0"
      unfolding p3 using fe(2) by (rule port_at_range_ports)
    moreover have "slot0_ports ports3 =
        mb @ range_ports fe_name (SlotInt 0) n_fe (port_id st' - int n_fe)"
      by (simp add: slot0_ports_def p3 p2 mb0 ex0 card0 pid2)
    ultimately show ?thesis using nd mb False by simp
  qed
qed

text \<open>
  With the sample catalogue, a 7200 with the NPE-G2 gets the single port
  \<open>GigabitEthernet0/0\<close> and a 7200 with the NPE-400 the two ports
  \<open>FastEthernet0/0\<close> and \<open>FastEthernet0/1\<close>; the \<open>slot0\<close> key of
  the device adds nothing.
\<close>

theorem c7200_default_card_witness:
  "npe_of npe_hypervisors (router_7200 1) = Some (S ''npe-g2'') \<and>
   npe_of npe_hypervisors (router_7200 2) = Some (S ''npe-400'') \<and>
   map_sum id (\<lambda>(nd, st). (n_ports nd, port_id st))
     (generate_node sample_catalog npe_hypervisors ''R1'' (router_7200 1) init_state) =
     Inr (Some [mk_port ''GigabitEthernet0/0'' 1 0 (SlotInt 0)], 2) \<and>
   map_sum id (\<lambda>(nd, st). (n_ports nd, port_id st))
     (generate_node sample_catalog npe_hypervisors ''R1'' (router_7200 2) init_state) =
     Inr (Some [mk_port ''FastEthernet0/0'' 1 0 (SlotInt 0),
                mk_port ''FastEthernet0/1'' 2 1 (SlotInt 0)], 3) \<and>
   (\<exists>nd st' ports.
      generate_node sample_catalog npe_hypervisors ''R1'' (router_7200 1) init_state =
        Inr (nd, st') \<and>
      n_ports nd = Some ports \<and>
      port_at ports ''GigabitEthernet0/0'' (SlotInt 0) 0 \<and>
      slot0_ports ports = range_ports ''GigabitEthernet'' (SlotInt 0) 1 (port_id st' - 1)) \<and>
   (\<exists>nd st' ports.
      generate_node sample_catalog npe_hypervisors ''R1'' (router_7200 2) init_state =
        Inr (nd, st') \<and>
      n_ports nd = Some ports \<and>
      port_at ports ''FastEthernet0/0'' (SlotInt 0) 0 \<and>
      slot0_ports ports = range_ports ''FastEthernet'' (SlotInt 0) 2 (port_id st' - 2))"
proof -
  let ?G = "\<lambda>h. generate_node sample_catalog npe_hypervisors ''R1'' (router_7200 h) init_state"
  have ty: "map_of (router_7200 h) ''type'' = Some (S ''Router'')" for h
    by (simp add: router_7200_def)
  have model: "map_of (router_7200 h) ''model'' = Some (S ''c7200'')" for h
    by (simp add: router_7200_def)
  have ge: "map_of (ADAPTER_MATRIX sample_catalog) ''C7200-IO-GE-E'' = Some (1, ''G'')"
    "map_of (PORT_TYPES sample_catalog) ''G'' = Some ''GigabitEthernet''"
    by (simp_all add: sample_catalog_def)
  have fe: "map_of (ADAPTER_MATRIX sample_catalog) ''C7200-IO-2FE'' = Some (2, ''F'')"
    "map_of (PORT_TYPES sample_catalog) ''F'' = Some ''FastEthernet''"
    by (simp_all add: sample_catalog_def)
  have n1: "npe_of npe_hypervisors (router_7200 1) = Some (S ''npe-g2'')" by code_simp
  have n2: "npe_of npe_hypervisors (router_7200 2) = Some (S ''npe-400'')" by code_simp
  have e1: "map_sum id (\<lambda>(nd, st). (n_ports nd, port_id st)) (?G 1) =
     Inr (Some [mk_port ''GigabitEthernet0/0'' 1 0 (SlotInt 0)], 2)" by code_simp
  have e2: "map_sum id (\<lambda>(nd, st). (n_ports nd, port_id st)) (?G 2) =
     Inr (Some [mk_port ''FastEthernet0/0'' 1 0 (SlotInt 0),
                mk_port ''FastEthernet0/1'' 2 1 (SlotInt 0)], 3)" by code_simp
  have mb: "calc_mb_ports sample_catalog (S ''c7200'') (chassis_of npe_hypervisors (router_7200 h))
              (port_id init_state) = Inr (mb, pid1) \<Longrightarrow> mb = []" for h mb pid1
    by (auto simp: calc_mb_ports_def sample_catalog_def getitem_def
        split: val.splits option.splits prod.splits if_splits)
  from e1 obtain nd1 st1 where g1: "?G 1 = Inr (nd1, st1)"
    by (cases "?G 1") auto
  from e2 obtain nd2 st2 where g2: "?G 2 = Inr (nd2, st2)"
    by (cases "?G 2") auto
  from c7200_default_card [OF g1 ty model ge(1) _ ge(2) fe(1) _ fe(2)] n1 mb
  have w1: "\<exists>ports. n_ports nd1 = Some ports \<and>
      port_at ports ''GigabitEthernet0/0'' (SlotInt 0) 0 \<and>
      slot0_ports ports = range_ports ''GigabitEthernet'' (SlotInt 0) 1 (port_id st1 - 1)"
    by fastforce
  from c7200_default_card [OF g2 ty model ge(1) _ ge(2) fe(1) _ fe(2)] n2 mb
  have w2: "\<exists>ports. n_ports nd2 = Some ports \<and>
      port_at ports ''FastEthernet0/0'' (SlotInt 0) 0 \<and>
      slot0_ports ports = range_ports ''FastEthernet'' (SlotInt 0) 2 (port_id st2 - 2)"
    by fastforce
  from g1 w1 have x1: "\<exists>nd st' ports. ?G 1 = Inr (nd, st') \<and> n_ports nd = Some ports \<and>
      port_at ports ''GigabitEthernet0/0'' (SlotInt 0) 0 \<and>
      slot0_ports ports = range_ports ''GigabitEthernet'' (SlotInt 0) 1 (port_id st' - 1)"
    by blast
  from g2 w2 have x2: "\<exists>nd st' ports. ?G 2 = Inr (nd, st') \<and> n_ports nd = Some ports \<and>
      port_at ports ''FastEthernet0/0'' (SlotInt 0) 0 \<and>
      slot0_ports ports = range_ports ''FastEthernet'' (SlotInt 0) 2 (port_id st' - 2)"
    by blast
  from n1 n2 e1 e2 x1 x2 show ?thesis by (intro conjI)
qed

text \<open>
  Claim C6, amended. \<open>generate_nodes\<close> writes the property
  \<open>slot0 = Leopard-2FE\<close> of a 3660 after the loop over the slots, so the adapter table
  is never read for it. For a router of model \<open>c3600\<close> whose hypervisor configuration
  has the chassis \<open>3660\<close> and which has no key for slot 0, the node carries the
  property \<open>slot0 = Leopard-2FE\<close>, and its ports in slot 0 (slot number 0 or
  \<open>'0'\<close>) are exactly the motherboard ports that the model table gives for the
  chassis 3660.
\<close>

theorem c3660_slot0_property:
  assumes gen: "generate_node cat hyp device dev st = Inr (nd, st')"
    and ty: "map_of dev ''type'' = Some (S ''Router'')"
    and model: "map_of dev ''model'' = Some (S ''c3600'')"
    and chassis: "chassis_of hyp dev = S ''3660''"
    and noslot0: "\<forall>k\<in>fst ` set dev. \<not> startswith k ''slot0''"
  shows "map_of (n_properties nd) ''slot0'' = Some (PV (S ''Leopard-2FE'')) \<and>
     (\<exists>ports mb pid1.
        n_ports nd = Some ports \<and>
        calc_mb_ports cat (S ''c3600'') (S ''3660'') (port_id st) = Inr (mb, pid1) \<and>
        filter in_slot0 ports = mb)"
proof -
  from generate_node_router [OF gen ty] model chassis
  obtain props mb pid1 ports2 pid2 ports3 props3 where
    keys: "\<forall>k\<in>fst ` set props. startswith k ''slot'' \<longrightarrow> k \<in> fst ` set dev" and
    mb: "calc_mb_ports cat (S ''c3600'') (S ''3660'') (port_id st) = Inr (mb, pid1)" and
    sl: "slot_loop cat props (sorted_keys props) mb pid1 = Inr (ports2, pid2)" and
    dp: "default_ports cat (S ''c3600'') (npe_of hyp dev) (S ''3660'') props ports2 pid2 =
           Inr (ports3, props3, port_id st')" and
    nd: "n_ports nd = Some ports3" "n_properties nd = props3"
    by auto
  from dp have p3: "ports3 = ports2"
    and pr3: "props3 = setitem (setitem props ''chassis'' (PV (S ''3660''))) ''slot0''
                         (PV (S ''Leopard-2FE''))"
    by (auto simp: default_ports_def Let_def)
  from slot_loop_ports [OF sl] obtain extra where
    p2: "ports2 = mb @ extra" and
    ex: "\<forall>p\<in>set extra. \<exists>item\<in>set (sorted_keys props). startswith item ''slot'' \<and>
           4 < length item \<and> p_slot_number p = Some (SlotStr [item ! 4])"
    by blast
  have mb0: "filter in_slot0 mb = mb"
    using calc_mb_ports_slot [OF mb] by (simp add: filter_id_conv in_slot0_def)
  have ex0: "filter in_slot0 extra = []"
    unfolding filter_empty_conv
  proof
    fix p assume "p \<in> set extra"
    with ex obtain item where
      it: "item \<in> fst ` set props" "startswith item ''slot''" "4 < length item" and
      ps: "p_slot_number p = Some (SlotStr [item ! 4])"
      unfolding set_sorted_keys by blast
    from keys it have "item \<in> fst ` set dev" by blast
    with noslot0 have "\<not> startswith item ''slot0''" by blast
    with slot0_key [OF it(2,3)] have "item ! 4 \<noteq> CHR ''0''" by blast
    with ps show "\<not> in_slot0 p" by (simp add: in_slot0_def)
  qed
  have "map_of props3 ''slot0'' = Some (PV (S ''Leopard-2FE''))"
    by (simp add: pr3 setitem_def)
  with nd mb p3 p2 mb0 ex0 show ?thesis by simp
qed

text \<open>
  With the sample catalogue the 3660 has the two FastEthernet ports of its motherboard and
  the property.
\<close>

theorem c3660_slot0_property_witness:
  "chassis_of npe_hypervisors router_3660 = S ''3660'' \<and>
   list_all (\<lambda>k. \<not> startswith k ''slot0'') (map fst router_3660) \<and>
   (\<exists>nd st' ports.
      generate_node sample_catalog npe_hypervisors ''R1'' router_3660 init_state = Inr (nd, st') \<and>
      map_of (n_properties nd) ''slot0'' = Some (PV (S ''Leopard-2FE'')) \<and>
      n_ports nd = Some ports \<and>
      filter in_slot0 ports =
        [mk_port ''FastEthernet0/0'' 1 0 (SlotInt 0), mk_port ''FastEthernet0/1'' 2 1 (SlotInt 0)])"
proof -
  let ?G = "generate_node sample_catalog npe_hypervisors ''R1'' router_3660 init_state"
  have ty: "map_of router_3660 ''type'' = Some (S ''Router'')"
    by (simp add: router_3660_def)
  have model: "map_of router_3660 ''model'' = Some (S ''c3600'')"
    by (simp add: router_3660_def)
  have ch: "chassis_of npe_hypervisors router_3660 = S ''3660''" by code_simp
  have ns: "list_all (\<lambda>k. \<not> startswith k ''slot0'') (map fst router_3660)" by code_simp
  then have ns': "\<forall>k\<in>fst ` set router_3660. \<not> startswith k ''slot0''"
    by (simp add: list_all_iff)
  have ok: "\<not> isl ?G" by code_simp
  then obtain nd st' where g: "?G = Inr (nd, st')" by (cases ?G) auto
  have mb: "calc_mb_ports sample_catalog (S ''c3600'') (S ''3660'') (port_id init_state) =
      Inr ([mk_port ''FastEthernet0/0'' 1 0 (SlotInt 0), mk_port ''FastEthernet0/1'' 2 1 (SlotInt 0)], 3)"
    by code_simp
  from c3660_slot0_property [OF g ty model ch ns'] mb g
  have "\<exists>nd st' ports. ?G = Inr (nd, st') \<and>
      map_of (n_properties nd) ''slot0'' = Some (PV (S ''Leopard-2FE'')) \<and>
      n_ports nd = Some ports \<and>
      filter in_slot0 ports =
        [mk_port ''FastEthernet0/0'' 1 0 (SlotInt 0), mk_port ''FastEthernet0/1'' 2 1 (SlotInt 0)]"
    by auto
  with ch ns show ?thesis by (intro conjI)
qed

text \<open>
  C6 (as stated) fails: the ports of the node of a 3660 are the two motherboard ports of the
  model table, with the integer slot number 0 and the ids 1 and 2, and the port counter is left
  at 3; the ports that \<open>calc_slot_ports\<close> makes for \<open>Leopard-2FE\<close> in slot
  \<open>'0'\<close> are not among them. With a catalogue whose model table gives the 3660 no
  motherboard port the port list is empty, although the property \<open>slot0\<close> is set and
  the adapter has two ports.
\<close>

theorem leopard_ports_not_added:
  "map_sum id (\<lambda>(nd, st). (n_ports nd, map_of (n_properties nd) ''slot0'', port_id st))
     (generate_node sample_catalog npe_hypervisors ''R1'' router_3660 init_state) =
     Inr (Some [mk_port ''FastEthernet0/0'' 1 0 (SlotInt 0),
                mk_port ''FastEthernet0/1'' 2 1 (SlotInt 0)],
          Some (PV (S ''Leopard-2FE'')), 3) \<and>
   calc_slot_ports sample_catalog (PV (S ''Leopard-2FE'')) (SlotStr ''0'') 3 =
     Inr ([mk_port ''FastEthernet0/0'' 3 0 (SlotStr ''0''),
           mk_port ''FastEthernet0/1'' 4 1 (SlotStr ''0'')], 5) \<and>
   map_sum id (\<lambda>(nd, st). (n_ports nd, map_of (n_properties nd) ''slot0'', port_id st))
     (generate_node bare_catalog npe_hypervisors ''R1'' router_3660 init_state) =
     Inr (Some [], Some (PV (S ''Leopard-2FE'')), 1)"
  by code_simp

end
